theory Spec2Isabelle
  imports Main "HOL-Library.AList"
begin

section \<open>Scope\<close>

text \<open>
  A shallow embedding of \<open>backbone.js\<close> 0.1.0: \<open>Backbone.Events\<close>, \<open>Backbone.Model\<close>
  and \<open>Backbone.Collection\<close>. Models and collections are objects of a heap, named by
  their address; every method takes the world and returns its result, or the exception
  it throws, together with the world it leaves. Callbacks are function objects; the
  ones an application binds are taken from a small language of subscribers, the
  observers among them writing what they see into a journal. \<open>Backbone.View\<close>,
  \<open>Backbone.sync\<close> and the methods that call it (\<open>save\<close>, \<open>destroy\<close>, \<open>fetch\<close>,
  \<open>create\<close>) are not modelled.

  Underscore is not part of the repository. The functions of it the code calls
  (\<open>_.isEqual\<close>, \<open>_.clone\<close>, \<open>_.uniqueId\<close>, \<open>_.indexOf\<close>, \<open>_.sortedIndex\<close>,
  \<open>_.sortBy\<close>) are modelled after the library the code was written against
  (Underscore 1.1), each where it is used.
\<close>

section \<open>JavaScript values\<close>

text \<open>
  Attribute values and ids are JavaScript primitives: \<open>undefined\<close>, \<open>null\<close>,
  integer-valued numbers and strings. Booleans, fractional numbers, NaN, arrays and nested
  objects are outside the value domain of this development. Reading a property that an
  object does not have yields \<open>undefined\<close>.
\<close>

datatype jsval = Undefined | Null | Num int | Str string

text \<open>Truthiness, as tested by \<open>if (x)\<close>, \<open>!x\<close> and \<open>x && y\<close>.\<close>

fun truthy :: "jsval \<Rightarrow> bool" where
  "truthy Undefined = False"
| "truthy Null = False"
| "truthy (Num n) = (n \<noteq> 0)"
| "truthy (Str s) = (s \<noteq> [])"

definition digit_char :: "nat \<Rightarrow> char" where
  "digit_char d = ''0123456789'' ! d"

fun digits :: "nat \<Rightarrow> string" where
  "digits n = (if n < 10 then [digit_char n] else digits (n div 10) @ [digit_char (n mod 10)])"

declare digits.simps [simp del]

text \<open>The string a value becomes when it is used as a property key (\<open>obj[v]\<close>).\<close>

fun ToString :: "jsval \<Rightarrow> string" where
  "ToString Undefined = ''undefined''"
| "ToString Null = ''null''"
| "ToString (Num n) = (if n < 0 then CHR ''-'' # digits (nat (- n)) else digits (nat n))"
| "ToString (Str s) = s"

text \<open>
  Loose equality \<open>==\<close>. Comparing a number with a string converts the string with the
  language's ToNumber, which is not part of the library; it is the parameter \<open>tn\<close>,
  giving \<open>Some n\<close> when the string denotes the integer \<open>n\<close> and \<open>None\<close> otherwise.
\<close>

fun loose_eq :: "(string \<Rightarrow> int option) \<Rightarrow> jsval \<Rightarrow> jsval \<Rightarrow> bool" where
  "loose_eq tn Undefined b = (b = Undefined \<or> b = Null)"
| "loose_eq tn Null b = (b = Undefined \<or> b = Null)"
| "loose_eq tn (Num n) (Num k) = (n = k)"
| "loose_eq tn (Num n) (Str s) = (tn s = Some n)"
| "loose_eq tn (Num n) b = False"
| "loose_eq tn (Str s) (Str t) = (s = t)"
| "loose_eq tn (Str s) (Num n) = (tn s = Some n)"
| "loose_eq tn (Str s) b = False"

text \<open>
  Underscore's \<open>_.isEqual\<close> on primitives: identical values are equal, values of different
  \<open>typeof\<close> are not, and two primitives of one type are equal only when identical.
\<close>

definition isEqual :: "jsval \<Rightarrow> jsval \<Rightarrow> bool" where
  "isEqual a b = (a = b)"

text \<open>
  An object used as a hash is the list of its properties in enumeration order, each key
  once. \<open>lookup\<close> is \<open>obj[key]\<close>, \<open>AList.update\<close> is \<open>obj[key] = v\<close> (a new key goes
  last), \<open>AList.delete\<close> is \<open>delete obj[key]\<close>, and \<open>_.clone\<close> returns the same list.
\<close>

type_synonym hash = "(string \<times> jsval) list"

definition lookup :: "hash \<Rightarrow> string \<Rightarrow> jsval" where
  "lookup h k = (case map_of h k of None \<Rightarrow> Undefined | Some v \<Rightarrow> v)"

definition has_key :: "string \<Rightarrow> hash \<Rightarrow> bool" where
  "has_key k h = (k \<in> set (map fst h))"

definition assign :: "string \<Rightarrow> jsval \<Rightarrow> hash \<Rightarrow> hash" where
  "assign k v h = AList.update k v h"

definition delete_key :: "string \<Rightarrow> hash \<Rightarrow> hash" where
  "delete_key k h = AList.delete k h"

section \<open>Backbone.Events\<close>

text \<open>
  Callbacks are function objects compared by identity. A subscriber written by the
  application is one of: an observer, which records what it is called with; a function that
  unbinds itself, or another subscriber, from an event of \<open>this\<close>; a function that binds
  another subscriber. The number is the identity of the function object. A model may also
  carry the \<open>_boundOnModelEvent\<close> of a collection, bound by \<open>_add\<close>.

  A subscriber that unbinds or binds does so with a callback and a non-empty event name,
  so it changes an array of callbacks in place (\<open>splice\<close>, \<open>push\<close>) and never replaces
  an array or the hash of arrays while \<open>trigger\<close> is running over them.
\<close>

datatype subscriber =
    Observer nat
  | RemoveSelf nat string
  | Remover nat string subscriber
  | Adder nat string subscriber

datatype handler = BoundOnModelEvent nat | User subscriber

text \<open>
  \<open>_callbacks\<close> is \<open>None\<close> while the property is undefined, otherwise the hash from event
  names to arrays of callbacks.
\<close>

type_synonym 'h callbacks = "(string \<rightharpoonup> 'h list) option"

definition bind :: "string \<Rightarrow> 'h \<Rightarrow> 'h callbacks \<Rightarrow> 'h callbacks" where
  "bind ev callback cbs =
     (let calls = (case cbs of None \<Rightarrow> Map.empty | Some c \<Rightarrow> c);
          list = (case calls ev of None \<Rightarrow> [] | Some l \<Rightarrow> l)
      in Some (calls(ev \<mapsto> list @ [callback])))"

text \<open>
  \<open>unbind(ev, callback)\<close>; an argument that is omitted, or falsy, is \<open>None\<close> (the empty
  event name is falsy).
\<close>

definition unbind :: "string option \<Rightarrow> 'h option \<Rightarrow> 'h callbacks \<Rightarrow> 'h callbacks" where
  "unbind ev callback cbs =
     (if ev = None \<or> ev = Some [] then Some Map.empty
      else (case cbs of
              None \<Rightarrow> None
            | Some calls \<Rightarrow>
                (case callback of
                   None \<Rightarrow> Some (calls(the ev \<mapsto> []))
                 | Some cb \<Rightarrow>
                     (case calls (the ev) of
                        None \<Rightarrow> Some calls
                      | Some list \<Rightarrow> Some (calls(the ev \<mapsto> remove1 cb list))))))"

datatype error = TypeError | DuplicateError jsval | NoComparatorError

text \<open>
  The loop \<open>for (i = 0, l = list.length; i < l; i++) list[i].apply(...)\<close>. The length is
  read once; the array is the live one, read again through \<open>cur\<close> at every step, since a
  callback may push to it or splice it. \<open>list[i]\<close> beyond the end is \<open>undefined\<close>, and
  calling \<open>apply\<close> on it throws a TypeError. The first argument counts the remaining
  iterations \<open>l - i\<close>.
\<close>

fun fire :: "('w \<Rightarrow> 'h list) \<Rightarrow> ('h \<Rightarrow> 'w \<Rightarrow> (error + unit) \<times> 'w) \<Rightarrow> nat \<Rightarrow> nat \<Rightarrow> 'w
    \<Rightarrow> (error + unit) \<times> 'w" where
  "fire cur call 0 i w = (Inr (), w)"
| "fire cur call (Suc k) i w =
     (if i < length (cur w) then
        (case call (cur w ! i) w of
           (Inl e, w') \<Rightarrow> (Inl e, w')
         | (Inr _, w') \<Rightarrow> fire cur call k (Suc i) w')
      else (Inl TypeError, w))"

section \<open>The heap: models and collections\<close>

text \<open>
  Objects live in a heap and are named by their address. A model carries its attribute
  hash, the \<open>id\<close> and \<open>cid\<close> properties, the snapshot \<open>_previousAttributes\<close>, the
  flag \<open>_changed\<close>, its callbacks, the \<open>collection\<close> back-reference, and the
  \<open>validate\<close> method of its class when the class defines one (a function of the attributes
  it is given, returning the error or a falsy value). Every model of the heap has been
  constructed, so its snapshot is an object.
\<close>

record model =
  m_attributes :: hash
  m_id :: jsval
  m_cid :: string
  m_previousAttributes :: hash
  m_changed :: bool
  m_callbacks :: "handler callbacks"
  m_collection :: "nat option"
  m_validate :: "(hash \<Rightarrow> jsval) option"

text \<open>
  A collection: \<open>length\<close>, the array \<open>models\<close>, the two indices, the comparator when one
  was given (a function from a model, read through its attributes, to a sort key; the keys
  are numbers or strings, ordered by \<open><\<close>, here any linear order), the \<open>validate\<close> hook
  of its \<open>model\<close> class, and its callbacks.
\<close>

record 'k collection =
  c_length :: int
  c_models :: "nat list"
  c_byId :: "string \<rightharpoonup> nat"
  c_byCid :: "string \<rightharpoonup> nat"
  c_comparator :: "(hash \<Rightarrow> 'k) option"
  c_model :: "(hash \<Rightarrow> jsval) option"
  c_callbacks :: "subscriber callbacks"

datatype emitter = OfModel nat | OfCollection nat

datatype arg = EvName string | ModelArg nat | CollectionArg nat | ValArg jsval

text \<open>
  What an observer records when it is called: its identity, \<open>this\<close>, its arguments, and
  for each model among the arguments what it reads there at that moment: \<open>attributes()\<close>,
  \<open>previousAttributes()\<close> and \<open>hasChanged()\<close>.
\<close>

datatype observation = Saw (o_tag: nat) (o_this: emitter) (o_args: "arg list")
  (o_views: "(hash \<times> hash \<times> bool) list")

record 'k world =
  mheap :: "nat \<Rightarrow> model"
  cheap :: "nat \<Rightarrow> 'k collection"
  idCounter :: nat
  journal :: "observation list"

fun views :: "(nat \<Rightarrow> model) \<Rightarrow> arg list \<Rightarrow> (hash \<times> hash \<times> bool) list" where
  "views h [] = []"
| "views h (ModelArg m # as) =
     (m_attributes (h m), m_previousAttributes (h m), m_changed (h m)) # views h as"
| "views h (a # as) = views h as"

text \<open>What a subscriber does to the callbacks of \<open>this\<close>.\<close>

fun sub_cb :: "(subscriber \<Rightarrow> 'h) \<Rightarrow> subscriber \<Rightarrow> 'h callbacks \<Rightarrow> 'h callbacks" where
  "sub_cb f (Observer t) cbs = cbs"
| "sub_cb f (RemoveSelf t ev) cbs = unbind (Some ev) (Some (f (RemoveSelf t ev))) cbs"
| "sub_cb f (Remover t ev s) cbs = unbind (Some ev) (Some (f s)) cbs"
| "sub_cb f (Adder t ev s) cbs = bind ev (f s) cbs"

definition observe :: "nat \<Rightarrow> emitter \<Rightarrow> arg list \<Rightarrow> 'k world \<Rightarrow> 'k world" where
  "observe t this args w = w\<lparr>journal := journal w @ [Saw t this args (views (mheap w) args)]\<rparr>"

definition set_c_callbacks :: "nat \<Rightarrow> subscriber callbacks \<Rightarrow> 'k world \<Rightarrow> 'k world" where
  "set_c_callbacks c cbs w = w\<lparr>cheap := (cheap w)(c := (cheap w c)\<lparr>c_callbacks := cbs\<rparr>)\<rparr>"

definition set_m_callbacks :: "nat \<Rightarrow> handler callbacks \<Rightarrow> 'k world \<Rightarrow> 'k world" where
  "set_m_callbacks m cbs w = w\<lparr>mheap := (mheap w)(m := (mheap w m)\<lparr>m_callbacks := cbs\<rparr>)\<rparr>"

subsection \<open>trigger on a collection\<close>

definition c_calls :: "nat \<Rightarrow> string \<Rightarrow> 'k world \<Rightarrow> subscriber list option" where
  "c_calls c ev w = (case c_callbacks (cheap w c) of None \<Rightarrow> None | Some calls \<Rightarrow> calls ev)"

definition c_list :: "nat \<Rightarrow> string \<Rightarrow> 'k world \<Rightarrow> subscriber list" where
  "c_list c ev w = (case c_calls c ev w of None \<Rightarrow> [] | Some l \<Rightarrow> l)"

definition call_c :: "nat \<Rightarrow> arg list \<Rightarrow> subscriber \<Rightarrow> 'k world \<Rightarrow> (error + unit) \<times> 'k world" where
  "call_c c args s w =
     (Inr (), (case s of
                 Observer t \<Rightarrow> observe t (OfCollection c) args w
               | _ \<Rightarrow> set_c_callbacks c (sub_cb id s (c_callbacks (cheap w c))) w))"

text \<open>
  \<open>trigger(ev, ...)\<close> with \<open>this\<close> the collection \<open>c\<close>: first the callbacks of \<open>ev\<close>,
  called with the arguments after the event name, then those of \<open>all\<close>, called with the
  event name too. \<open>calls\<close> is the live hash: \<open>calls['all']\<close> is read after the first loop.
\<close>

definition trigger_c :: "nat \<Rightarrow> string \<Rightarrow> arg list \<Rightarrow> 'k world \<Rightarrow> (error + unit) \<times> 'k world" where
  "trigger_c c ev args w =
     (case c_callbacks (cheap w c) of
        None \<Rightarrow> (Inr (), w)
      | Some calls \<Rightarrow>
          (case (case calls ev of
                   None \<Rightarrow> (Inr (), w)
                 | Some list \<Rightarrow> fire (c_list c ev) (call_c c args) (length list) 0 w) of
             (Inl e, w1) \<Rightarrow> (Inl e, w1)
           | (Inr _, w1) \<Rightarrow>
               (case c_calls c ''all'' w1 of
                  None \<Rightarrow> (Inr (), w1)
                | Some list \<Rightarrow>
                    fire (c_list c ''all'') (call_c c (EvName ev # args)) (length list) 0 w1)))"

subsection \<open>Reading a model\<close>

definition hasChanged :: "(string \<Rightarrow> int option) \<Rightarrow> model \<Rightarrow> string option \<Rightarrow> bool" where
  "hasChanged tn M attr =
     (if attr \<noteq> None \<and> attr \<noteq> Some []
      then \<not> loose_eq tn (lookup (m_previousAttributes M) (the attr)) (lookup (m_attributes M) (the attr))
      else m_changed M)"

definition previous :: "model \<Rightarrow> string \<Rightarrow> jsval" where
  "previous M attr = (if attr = [] then Null else lookup (m_previousAttributes M) attr)"

definition get_attr :: "model \<Rightarrow> string \<Rightarrow> jsval" where
  "get_attr M attr = lookup (m_attributes M) attr"

definition isNew :: "model \<Rightarrow> bool" where
  "isNew M = (\<not> truthy (m_id M))"

subsection \<open>The collection's handler of its models' events\<close>

definition rekey :: "nat \<Rightarrow> nat \<Rightarrow> 'k world \<Rightarrow> 'k world" where
  "rekey c m w =
     (let M = mheap w m; C = cheap w c
      in w\<lparr>cheap := (cheap w)(c := C\<lparr>c_byId :=
            ((c_byId C)(ToString (previous M ''id'') := None))(ToString (m_id M) \<mapsto> m)\<rparr>)\<rparr>)"

text \<open>
  \<open>_onModelEvent(ev, model, error)\<close> with \<open>this\<close> the collection \<open>c\<close>, as the models
  call it: bound to \<open>all\<close>, so its arguments are the event name, the model, and what
  follows.
\<close>

definition onModelEvent ::
  "(string \<Rightarrow> int option) \<Rightarrow> nat \<Rightarrow> arg list \<Rightarrow> 'k world \<Rightarrow> (error + unit) \<times> 'k world" where
  "onModelEvent tn c args w =
     (case args of
        EvName ev # ModelArg m # rest \<Rightarrow>
          if ev = ''change'' then
            trigger_c c ''change'' [ModelArg m]
              (if hasChanged tn (mheap w m) (Some ''id'') then rekey c m w else w)
          else if ev = ''error'' then
            trigger_c c ''error'' [ModelArg m, (case rest of [] \<Rightarrow> ValArg Undefined | e # _ \<Rightarrow> e)] w
          else (Inr (), w)
      | _ \<Rightarrow> (Inr (), w))"

subsection \<open>trigger on a model\<close>

definition m_calls :: "nat \<Rightarrow> string \<Rightarrow> 'k world \<Rightarrow> handler list option" where
  "m_calls m ev w = (case m_callbacks (mheap w m) of None \<Rightarrow> None | Some calls \<Rightarrow> calls ev)"

definition m_list :: "nat \<Rightarrow> string \<Rightarrow> 'k world \<Rightarrow> handler list" where
  "m_list m ev w = (case m_calls m ev w of None \<Rightarrow> [] | Some l \<Rightarrow> l)"

definition call_m ::
  "(string \<Rightarrow> int option) \<Rightarrow> nat \<Rightarrow> arg list \<Rightarrow> handler \<Rightarrow> 'k world \<Rightarrow> (error + unit) \<times> 'k world" where
  "call_m tn m args h w =
     (case h of
        BoundOnModelEvent c \<Rightarrow> onModelEvent tn c args w
      | User (Observer t) \<Rightarrow> (Inr (), observe t (OfModel m) args w)
      | User s \<Rightarrow> (Inr (), set_m_callbacks m (sub_cb User s (m_callbacks (mheap w m))) w))"

definition trigger_m ::
  "(string \<Rightarrow> int option) \<Rightarrow> nat \<Rightarrow> string \<Rightarrow> arg list \<Rightarrow> 'k world \<Rightarrow> (error + unit) \<times> 'k world" where
  "trigger_m tn m ev args w =
     (case m_callbacks (mheap w m) of
        None \<Rightarrow> (Inr (), w)
      | Some calls \<Rightarrow>
          (case (case calls ev of
                   None \<Rightarrow> (Inr (), w)
                 | Some list \<Rightarrow> fire (m_list m ev) (call_m tn m args) (length list) 0 w) of
             (Inl e, w1) \<Rightarrow> (Inl e, w1)
           | (Inr _, w1) \<Rightarrow>
               (case m_calls m ''all'' w1 of
                  None \<Rightarrow> (Inr (), w1)
                | Some list \<Rightarrow>
                    fire (m_list m ''all'') (call_m tn m (EvName ev # args)) (length list) 0 w1)))"

section \<open>Backbone.Model\<close>

definition upd_m :: "nat \<Rightarrow> (model \<Rightarrow> model) \<Rightarrow> 'k world \<Rightarrow> 'k world" where
  "upd_m m f w = w\<lparr>mheap := (mheap w)(m := f (mheap w m))\<rparr>"

definition upd_c :: "nat \<Rightarrow> ('k collection \<Rightarrow> 'k collection) \<Rightarrow> 'k world \<Rightarrow> 'k world" where
  "upd_c c f w = w\<lparr>cheap := (cheap w)(c := f (cheap w c))\<rparr>"

text \<open>
  \<open>change()\<close>: the event first, then the snapshot and the flag. An exception thrown by a
  callback leaves the method before the snapshot is taken.
\<close>

definition change :: "(string \<Rightarrow> int option) \<Rightarrow> nat \<Rightarrow> 'k world \<Rightarrow> (error + unit) \<times> 'k world" where
  "change tn m w =
     (case trigger_m tn m ''change'' [ModelArg m] w of
        (Inl e, w1) \<Rightarrow> (Inl e, w1)
      | (Inr _, w1) \<Rightarrow>
          (Inr (), upd_m m (\<lambda>M. M\<lparr>m_previousAttributes := m_attributes M, m_changed := False\<rparr>) w1))"

text \<open>
  The loop \<open>for (var attr in attrs)\<close> of \<open>set\<close>, over the properties of the patch in
  enumeration order; \<open>now\<close> is the live attribute hash of the model.
\<close>

fun update_attrs ::
  "(string \<Rightarrow> int option) \<Rightarrow> nat \<Rightarrow> bool \<Rightarrow> hash \<Rightarrow> 'k world \<Rightarrow> (error + unit) \<times> 'k world" where
  "update_attrs tn m silent [] w = (Inr (), w)"
| "update_attrs tn m silent ((attr, v) # rest) w =
     (let val = (if v = Str [] then Null else v) in
      if \<not> isEqual (lookup (m_attributes (mheap w m)) attr) val then
        (let w1 = upd_m m (\<lambda>M. M\<lparr>m_attributes := assign attr val (m_attributes M)\<rparr>) w in
         if \<not> silent then
           (case trigger_m tn m (''change:'' @ attr) [ModelArg m, ValArg val]
                   (upd_m m (\<lambda>M. M\<lparr>m_changed := True\<rparr>) w1) of
              (Inl e, w2) \<Rightarrow> (Inl e, w2)
            | (Inr _, w2) \<Rightarrow> update_attrs tn m silent rest w2)
         else update_attrs tn m silent rest w1)
      else update_attrs tn m silent rest w)"

text \<open>
  The first argument of \<open>set\<close>: a falsy value, a plain hash of attributes (one that has no
  truthy \<open>_attributes\<close> property of its own), or another model, whose \<open>_attributes\<close> are
  taken. The result \<open>True\<close> stands for \<open>this\<close>, \<open>False\<close> for \<open>false\<close>.
\<close>

datatype patch = NoAttrs | Attrs hash | FromModel nat

text \<open>\<open>attrs = attrs._attributes || attrs\<close>.\<close>

definition attrs_of :: "'k world \<Rightarrow> patch \<Rightarrow> hash" where
  "attrs_of w p = (case p of FromModel r \<Rightarrow> m_attributes (mheap w r) | Attrs h \<Rightarrow> h | NoAttrs \<Rightarrow> [])"

definition set_attrs ::
  "(string \<Rightarrow> int option) \<Rightarrow> nat \<Rightarrow> patch \<Rightarrow> bool \<Rightarrow> 'k world \<Rightarrow> (error + bool) \<times> 'k world" where
  "set_attrs tn m p silent w =
     (case p of
        NoAttrs \<Rightarrow> (Inr True, w)
      | _ \<Rightarrow>
         (let attrs = attrs_of w p;
              err = (case m_validate (mheap w m) of None \<Rightarrow> Undefined | Some validate \<Rightarrow> validate attrs)
          in if truthy err then
               (case trigger_m tn m ''error'' [ModelArg m, ValArg err] w of
                  (Inl e, w1) \<Rightarrow> (Inl e, w1)
                | (Inr _, w1) \<Rightarrow> (Inr False, w1))
             else
               (case update_attrs tn m silent attrs
                       (if has_key ''id'' attrs
                        then upd_m m (\<lambda>M. M\<lparr>m_id := lookup attrs ''id''\<rparr>) w else w) of
                  (Inl e, w2) \<Rightarrow> (Inl e, w2)
                | (Inr _, w2) \<Rightarrow>
                    if \<not> silent \<and> m_changed (mheap w2 m) then
                      (case change tn m w2 of
                         (Inl e, w3) \<Rightarrow> (Inl e, w3)
                       | (Inr _, w3) \<Rightarrow> (Inr True, w3))
                    else (Inr True, w2))))"

definition unset ::
  "(string \<Rightarrow> int option) \<Rightarrow> nat \<Rightarrow> string \<Rightarrow> bool \<Rightarrow> 'k world \<Rightarrow> (error + jsval) \<times> 'k world" where
  "unset tn m attr silent w =
     (let val = lookup (m_attributes (mheap w m)) attr;
          w1 = upd_m m (\<lambda>M. M\<lparr>m_attributes := delete_key attr (m_attributes M)\<rparr>) w
      in if \<not> silent then
           (case trigger_m tn m (''change:'' @ attr) [ModelArg m]
                   (upd_m m (\<lambda>M. M\<lparr>m_changed := True\<rparr>) w1) of
              (Inl e, w2) \<Rightarrow> (Inl e, w2)
            | (Inr _, w2) \<Rightarrow>
                (case change tn m w2 of
                   (Inl e, w3) \<Rightarrow> (Inl e, w3)
                 | (Inr _, w3) \<Rightarrow> (Inr val, w3)))
         else (Inr val, w1))"

text \<open>
  \<open>new Model(attributes)\<close> of a class with the given \<open>validate\<close>. The object is new: its
  address is the number \<open>_.uniqueId\<close> gives its \<open>cid\<close>, and the prototype supplies
  \<open>_changed = false\<close>, no \<open>id\<close>, no callbacks and no collection.
\<close>

definition blank_model :: "(hash \<Rightarrow> jsval) option \<Rightarrow> nat \<Rightarrow> model" where
  "blank_model validate n =
     \<lparr>m_attributes = [], m_id = Undefined, m_cid = CHR ''c'' # digits n, m_previousAttributes = [],
      m_changed = False, m_callbacks = None, m_collection = None, m_validate = validate\<rparr>"

definition new_model ::
  "(string \<Rightarrow> int option) \<Rightarrow> (hash \<Rightarrow> jsval) option \<Rightarrow> hash \<Rightarrow> 'k world \<Rightarrow> (error + nat) \<times> 'k world" where
  "new_model tn validate attributes w =
     (let n = idCounter w;
          w0 = w\<lparr>mheap := (mheap w)(n := blank_model validate n), idCounter := Suc n\<rparr>
      in case set_attrs tn n (Attrs attributes) True w0 of
           (Inl e, w1) \<Rightarrow> (Inl e, w1)
         | (Inr _, w1) \<Rightarrow> (Inr n, upd_m n (\<lambda>M. M\<lparr>m_previousAttributes := m_attributes M\<rparr>) w1))"

section \<open>Backbone.Collection\<close>

text \<open>The argument of \<open>get\<close> and \<open>remove\<close>: a model, or a primitive value.\<close>

datatype reference = ByModel nat | ByValue jsval

text \<open>
  \<open>get(id)\<close> is \<open>id && this._byId[id.id != null ? id.id : id]\<close>. A primitive has no
  \<open>id\<close> property and is its own key; a model whose \<open>id\<close> is \<open>null\<close> or \<open>undefined\<close> is
  itself the key, that is its \<open>toString()\<close>, \<open>'Model ' + this.id\<close>. The result is
  \<open>None\<close> when the expression is falsy.
\<close>

definition get :: "'k world \<Rightarrow> nat \<Rightarrow> reference \<Rightarrow> nat option" where
  "get w c r =
     (case r of
        ByValue v \<Rightarrow> if truthy v then c_byId (cheap w c) (ToString v) else None
      | ByModel m \<Rightarrow>
          (let i = m_id (mheap w m)
           in if i \<noteq> Undefined \<and> i \<noteq> Null then c_byId (cheap w c) (ToString i)
              else c_byId (cheap w c) (''Model '' @ ToString i)))"

definition getByCid :: "'k world \<Rightarrow> nat \<Rightarrow> string \<Rightarrow> nat option" where
  "getByCid w c cid = (if cid \<noteq> [] then c_byCid (cheap w c) cid else None)"

text \<open>
  Underscore's \<open>_.sortedIndex(array, obj, iterator)\<close>, the binary search
  \<open>while (low < high) { mid = (low + high) >> 1;
  iterator(array[mid]) < iterator(obj) ? low = mid + 1 : high = mid; } return low\<close>.
\<close>

function sortedIndex_loop :: "('a \<Rightarrow> 'k::linorder) \<Rightarrow> 'a list \<Rightarrow> 'a \<Rightarrow> nat \<Rightarrow> nat \<Rightarrow> nat" where
  "sortedIndex_loop iterator array obj low high =
     (if low < high then
        (let mid = (low + high) div 2
         in if iterator (array ! mid) < iterator obj
            then sortedIndex_loop iterator array obj (mid + 1) high
            else sortedIndex_loop iterator array obj low mid)
      else low)"
  by pat_completeness auto
termination
  by (relation "measure (\<lambda>(iterator, array, obj, low, high). high - low)") auto

declare sortedIndex_loop.simps [simp del]

definition sortedIndex :: "('a \<Rightarrow> 'k::linorder) \<Rightarrow> 'a list \<Rightarrow> 'a \<Rightarrow> nat" where
  "sortedIndex iterator array obj = sortedIndex_loop iterator array obj 0 (length array)"

text \<open>
  Underscore's \<open>_.sortBy\<close> sorts by the iterator's values with \<open>Array.prototype.sort\<close>;
  the order it gives to equal keys depends on the engine, and is taken here to be the
  stable one.
\<close>

definition sortBy :: "('a \<Rightarrow> 'k::linorder) \<Rightarrow> 'a list \<Rightarrow> 'a list" where
  "sortBy iterator array = sort_key iterator array"

text \<open>\<open>_.indexOf\<close>: the first position of the item, or \<open>-1\<close>.\<close>

fun indexOf :: "'a list \<Rightarrow> 'a \<Rightarrow> int" where
  "indexOf [] x = - 1"
| "indexOf (y # ys) x = (if y = x then 0 else (let i = indexOf ys x in if i < 0 then - 1 else i + 1))"

text \<open>
  \<open>array.splice(start, 0, item)\<close> and \<open>array.splice(start, 1)\<close>: a negative start counts
  from the end, and the start is clamped to the array.
\<close>

definition splice_start :: "int \<Rightarrow> 'a list \<Rightarrow> nat" where
  "splice_start start xs =
     (let n = int (length xs) in nat (if start < 0 then max (n + start) 0 else min start n))"

definition splice_insert :: "int \<Rightarrow> 'a \<Rightarrow> 'a list \<Rightarrow> 'a list" where
  "splice_insert start x xs = take (splice_start start xs) xs @ x # drop (splice_start start xs) xs"

definition splice_remove :: "int \<Rightarrow> 'a list \<Rightarrow> 'a list" where
  "splice_remove start xs = take (splice_start start xs) xs @ drop (Suc (splice_start start xs)) xs"

definition sort_key_of :: "'k world \<Rightarrow> (hash \<Rightarrow> 'k) \<Rightarrow> nat \<Rightarrow> 'k" where
  "sort_key_of w comparator m = comparator (m_attributes (mheap w m))"

definition initialize :: "nat \<Rightarrow> 'k world \<Rightarrow> 'k world" where
  "initialize c w =
     upd_c c (\<lambda>C. C\<lparr>c_length := 0, c_models := [], c_byId := Map.empty, c_byCid := Map.empty\<rparr>) w"

text \<open>\<open>_add(model, options)\<close>; the result is the model.\<close>

definition add_model ::
  "nat \<Rightarrow> nat \<Rightarrow> bool \<Rightarrow> ('k::linorder) world \<Rightarrow> (error + nat) \<times> 'k world" where
  "add_model c m silent w =
     (case get w c (ByModel m) of
        Some already \<Rightarrow> (Inl (DuplicateError (m_id (mheap w already))), w)
      | None \<Rightarrow>
         (let w1 = upd_c c (\<lambda>C. C\<lparr>c_byId := (c_byId C)(ToString (m_id (mheap w m)) \<mapsto> m)\<rparr>) w;
              w2 = upd_c c (\<lambda>C. C\<lparr>c_byCid := (c_byCid C)(m_cid (mheap w m) \<mapsto> m)\<rparr>) w1;
              w3 = upd_m m (\<lambda>M. M\<lparr>m_collection := Some c\<rparr>) w2;
              index = (case c_comparator (cheap w3 c) of
                         Some comparator \<Rightarrow>
                           int (sortedIndex (sort_key_of w3 comparator) (c_models (cheap w3 c)) m)
                       | None \<Rightarrow> c_length (cheap w3 c));
              w4 = upd_c c (\<lambda>C. C\<lparr>c_models := splice_insert index m (c_models C)\<rparr>) w3;
              w5 = upd_m m (\<lambda>M. M\<lparr>m_callbacks := bind ''all'' (BoundOnModelEvent c) (m_callbacks M)\<rparr>) w4;
              w6 = upd_c c (\<lambda>C. C\<lparr>c_length := c_length C + 1\<rparr>) w5
          in if \<not> silent then
               (case trigger_c c ''add'' [ModelArg m] w6 of
                  (Inl e, w7) \<Rightarrow> (Inl e, w7)
                | (Inr _, w7) \<Rightarrow> (Inr m, w7))
             else (Inr m, w6)))"

text \<open>\<open>add(models, options)\<close> on an array: \<open>_add\<close> for each, an exception ends the loop.\<close>

fun add :: "nat \<Rightarrow> nat list \<Rightarrow> bool \<Rightarrow> ('k::linorder) world \<Rightarrow> (error + unit) \<times> 'k world" where
  "add c [] silent w = (Inr (), w)"
| "add c (m # ms) silent w =
     (case add_model c m silent w of
        (Inl e, w1) \<Rightarrow> (Inl e, w1)
      | (Inr _, w1) \<Rightarrow> add c ms silent w1)"

text \<open>\<open>_remove(model, options)\<close>; the result is the model, or \<open>None\<close> for \<open>null\<close>.\<close>

definition remove_model ::
  "nat \<Rightarrow> reference \<Rightarrow> bool \<Rightarrow> 'k world \<Rightarrow> (error + nat option) \<times> 'k world" where
  "remove_model c r silent w =
     (case get w c r of
        None \<Rightarrow> (Inr None, w)
      | Some m \<Rightarrow>
         (let w1 = upd_c c (\<lambda>C. C\<lparr>c_byId := (c_byId C)(ToString (m_id (mheap w m)) := None)\<rparr>) w;
              w2 = upd_c c (\<lambda>C. C\<lparr>c_byCid := (c_byCid C)(m_cid (mheap w m) := None)\<rparr>) w1;
              w3 = upd_m m (\<lambda>M. M\<lparr>m_collection := None\<rparr>) w2;
              w4 = upd_c c (\<lambda>C. C\<lparr>c_models := splice_remove (indexOf (c_models C) m) (c_models C)\<rparr>) w3;
              w5 = upd_m m (\<lambda>M. M\<lparr>m_callbacks :=
                     unbind (Some ''all'') (Some (BoundOnModelEvent c)) (m_callbacks M)\<rparr>) w4;
              w6 = upd_c c (\<lambda>C. C\<lparr>c_length := c_length C - 1\<rparr>) w5
          in if \<not> silent then
               (case trigger_c c ''remove'' [ModelArg m] w6 of
                  (Inl e, w7) \<Rightarrow> (Inl e, w7)
                | (Inr _, w7) \<Rightarrow> (Inr (Some m), w7))
             else (Inr (Some m), w6)))"

definition sort_models :: "nat \<Rightarrow> bool \<Rightarrow> ('k::linorder) world \<Rightarrow> (error + unit) \<times> 'k world" where
  "sort_models c silent w =
     (case c_comparator (cheap w c) of
        None \<Rightarrow> (Inl NoComparatorError, w)
      | Some comparator \<Rightarrow>
         (let w1 = upd_c c (\<lambda>C. C\<lparr>c_models := sortBy (sort_key_of w comparator) (c_models C)\<rparr>) w
          in if \<not> silent then trigger_c c ''refresh'' [CollectionArg c] w1 else (Inr (), w1)))"

text \<open>
  The first argument of \<open>refresh\<close>: an array of models, or an array of plain attribute
  hashes, each made a model of the collection's \<open>model\<close> class.
\<close>

datatype incoming = Models "nat list" | Raws "hash list"

fun materialize ::
  "(string \<Rightarrow> int option) \<Rightarrow> (hash \<Rightarrow> jsval) option \<Rightarrow> hash list \<Rightarrow> 'k world
    \<Rightarrow> (error + nat list) \<times> 'k world" where
  "materialize tn validate [] w = (Inr [], w)"
| "materialize tn validate (attrs # rest) w =
     (case new_model tn validate attrs w of
        (Inl e, w1) \<Rightarrow> (Inl e, w1)
      | (Inr n, w1) \<Rightarrow>
          (case materialize tn validate rest w1 of
             (Inl e, w2) \<Rightarrow> (Inl e, w2)
           | (Inr ns, w2) \<Rightarrow> (Inr (n # ns), w2)))"

definition refresh ::
  "(string \<Rightarrow> int option) \<Rightarrow> nat \<Rightarrow> incoming \<Rightarrow> bool \<Rightarrow> ('k::linorder) world
    \<Rightarrow> (error + unit) \<times> 'k world" where
  "refresh tn c models silent w =
     (case (case models of
              Models ms \<Rightarrow> (Inr ms, w)
            | Raws hs \<Rightarrow> materialize tn (c_model (cheap w c)) hs w) of
        (Inl e, w1) \<Rightarrow> (Inl e, w1)
      | (Inr ms, w1) \<Rightarrow>
          (case add c ms True (initialize c w1) of
             (Inl e, w2) \<Rightarrow> (Inl e, w2)
           | (Inr _, w2) \<Rightarrow>
               if \<not> silent then trigger_c c ''refresh'' [CollectionArg c] w2 else (Inr (), w2)))"

section \<open>The operations on heap objects, and example worlds\<close>

definition m_bind :: "nat \<Rightarrow> string \<Rightarrow> handler \<Rightarrow> 'k world \<Rightarrow> 'k world" where
  "m_bind m ev callback w = upd_m m (\<lambda>M. M\<lparr>m_callbacks := bind ev callback (m_callbacks M)\<rparr>) w"

definition c_bind :: "nat \<Rightarrow> string \<Rightarrow> subscriber \<Rightarrow> 'k world \<Rightarrow> 'k world" where
  "c_bind c ev callback w = upd_c c (\<lambda>C. C\<lparr>c_callbacks := bind ev callback (c_callbacks C)\<rparr>) w"

text \<open>
  A ToNumber for the examples: the empty string is 0 and a string of decimal digits is
  its value. The examples compare numbers with no other strings.
\<close>

fun read_digits :: "nat \<Rightarrow> string \<Rightarrow> nat option" where
  "read_digits acc [] = Some acc"
| "read_digits acc (ch # s) =
     (if ch \<in> set ''0123456789'' then read_digits (10 * acc + (of_char ch - 48)) s else None)"

definition ToNumber_decimal :: "string \<Rightarrow> int option" where
  "ToNumber_decimal s = map_option int (read_digits 0 s)"

text \<open>
  The world before anything is created: no model has been constructed, and every
  collection is as \<open>new Backbone.Collection(null, {comparator: ...})\<close> leaves it.
\<close>

definition blank_collection :: "(hash \<Rightarrow> 'k) option \<Rightarrow> 'k collection" where
  "blank_collection comparator =
     \<lparr>c_length = 0, c_models = [], c_byId = Map.empty, c_byCid = Map.empty,
      c_comparator = comparator, c_model = None, c_callbacks = None\<rparr>"

definition blank_world :: "(hash \<Rightarrow> 'k) option \<Rightarrow> 'k world" where
  "blank_world comparator =
     \<lparr>mheap = blank_model None, cheap = (\<lambda>c. blank_collection comparator),
      idCounter = 0, journal = []\<rparr>"

text \<open>A model created with the given attributes, at address 0.\<close>

definition one_model :: "hash \<Rightarrow> int world" where
  "one_model attrs = snd (new_model ToNumber_decimal None attrs (blank_world None))"

text \<open>
  An event hub (here a model) with two subscribers of \<open>e\<close>: the first unbinds itself
  when called, the second is an observer.
\<close>

definition hub_world :: "int world" where
  "hub_world = m_bind 0 ''e'' (User (Observer 2)) (m_bind 0 ''e'' (User (RemoveSelf 1 ''e'')) (one_model []))"

text \<open>A model without attributes, observed on \<open>change\<close>.\<close>

definition observed_model :: "int world" where
  "observed_model = m_bind 0 ''change'' (User (Observer 1)) (one_model [])"

text \<open>A model whose \<open>validate\<close> answers a negative age with the given error value.\<close>

definition age_check :: "jsval \<Rightarrow> hash \<Rightarrow> jsval" where
  "age_check err attrs = (case lookup attrs ''age'' of Num n \<Rightarrow> if n < 0 then err else Undefined | _ \<Rightarrow> Undefined)"

definition validated_model :: "jsval \<Rightarrow> int world" where
  "validated_model err =
     m_bind 0 ''error'' (User (Observer 1))
       (snd (new_model ToNumber_decimal (Some (age_check err)) [(''age'', Num 30)] (blank_world None)))"

text \<open>
  Collection 0 observed on every event, and a model without an id created at address 0
  and added to it.
\<close>

definition member_without_id :: "int world" where
  "member_without_id =
     snd (add_model 0 0 False
       (snd (new_model ToNumber_decimal None [(''name'', Str ''a'')]
          (c_bind 0 ''all'' (Observer 9) (blank_world None)))))"

text \<open>
  The collection of \<open>member_without_id\<close> refreshed with one plain hash: the model made
  from it, at address 1, is now its only member.
\<close>

definition refreshed :: "int world" where
  "refreshed = snd (refresh ToNumber_decimal 0 (Raws [[(''name'', Str ''b'')]]) False member_without_id)"

text \<open>
  Collection 0 sorted by the attribute \<open>rank\<close>, and two models of rank 1 created at
  addresses 0 and 1.
\<close>

definition by_rank :: "hash \<Rightarrow> int" where
  "by_rank attrs = (case lookup attrs ''rank'' of Num n \<Rightarrow> n | _ \<Rightarrow> 0)"

definition two_ranked :: "int world" where
  "two_ranked =
     snd (new_model ToNumber_decimal None [(''rank'', Num 1), (''name'', Str ''second'')]
       (snd (new_model ToNumber_decimal None [(''rank'', Num 1), (''name'', Str ''first'')]
          (blank_world (Some by_rank)))))"

section \<open>What the properties are stated with\<close>

text \<open>
  The observations a list of subscribers adds to the journal when each observer in it is
  called once, in order, with the given \<open>this\<close> and arguments.
\<close>

fun is_observer :: "subscriber \<Rightarrow> bool" where
  "is_observer (Observer t) = True"
| "is_observer s = False"

fun sightings :: "emitter \<Rightarrow> arg list \<Rightarrow> (nat \<Rightarrow> model) \<Rightarrow> subscriber list \<Rightarrow> observation list" where
  "sightings this args h [] = []"
| "sightings this args h (Observer t # ss) = Saw t this args (views h args) # sightings this args h ss"
| "sightings this args h (s # ss) = sightings this args h ss"

fun observing :: "handler \<Rightarrow> bool" where
  "observing (User (Observer t)) = True"
| "observing h = False"

fun users :: "handler list \<Rightarrow> subscriber list" where
  "users [] = []"
| "users (User s # hs) = s # users hs"
| "users (h # hs) = users hs"

text \<open>The event an observation is of: who saw it, on which object, with which arguments.\<close>

definition event_of :: "observation \<Rightarrow> nat \<times> emitter \<times> arg list" where
  "event_of ob = (o_tag ob, o_this ob, o_args ob)"

text \<open>
  Everything of a model but its callbacks, and everything of a collection but its
  callbacks and its index by id.
\<close>

definition m_data ::
  "model \<Rightarrow> hash \<times> jsval \<times> string \<times> hash \<times> bool \<times> nat option \<times> (hash \<Rightarrow> jsval) option" where
  "m_data M = (m_attributes M, m_id M, m_cid M, m_previousAttributes M, m_changed M,
     m_collection M, m_validate M)"

definition c_data ::
  "'k collection \<Rightarrow> int \<times> nat list \<times> (string \<rightharpoonup> nat) \<times> (hash \<Rightarrow> 'k) option \<times> (hash \<Rightarrow> jsval) option" where
  "c_data C = (c_length C, c_models C, c_byCid C, c_comparator C, c_model C)"

text \<open>
  What publishing an event can do to the world: callbacks and the index by id may
  change, the journal grows, and each new observation shows the models as they were.
\<close>

definition notified :: "'k world \<Rightarrow> 'k world \<Rightarrow> bool" where
  "notified w w' \<longleftrightarrow>
     (\<forall>r. m_data (mheap w' r) = m_data (mheap w r)) \<and>
     (\<forall>c. c_data (cheap w' c) = c_data (cheap w c)) \<and>
     idCounter w' = idCounter w \<and>
     (\<exists>ns. journal w' = journal w @ ns \<and> list_all (\<lambda>n. o_views n = views (mheap w) (o_args n)) ns)"

definition c_notified :: "'k world \<Rightarrow> 'k world \<Rightarrow> bool" where
  "c_notified w w' \<longleftrightarrow>
     notified w w' \<and> mheap w' = mheap w \<and> (\<forall>c. c_byId (cheap w' c) = c_byId (cheap w c))"

text \<open>
  What one \<open>trigger(ev, args)\<close> on a model, or on a collection, adds to the journal when
  its subscribers are observers: those of \<open>ev\<close> see the arguments, then those of
  \<open>all\<close> see the event name and the arguments. \<open>h\<close> is the heap they look at, \<open>w\<close> the
  world whose subscriber lists are used.
\<close>

definition published :: "nat \<Rightarrow> string \<Rightarrow> arg list \<Rightarrow> (nat \<Rightarrow> model) \<Rightarrow> 'k world \<Rightarrow> observation list" where
  "published m ev args h w =
     sightings (OfModel m) args h (users (m_list m ev w))
     @ sightings (OfModel m) (EvName ev # args) h (users (m_list m ''all'' w))"

definition c_published :: "nat \<Rightarrow> string \<Rightarrow> arg list \<Rightarrow> (nat \<Rightarrow> model) \<Rightarrow> 'k world \<Rightarrow> observation list" where
  "c_published c ev args h w =
     sightings (OfCollection c) args h (c_list c ev w)
     @ sightings (OfCollection c) (EvName ev # args) h (c_list c ''all'' w)"

text \<open>A model observed on \<open>change\<close> and on \<open>change:a\<close>.\<close>

definition watched_model :: "int world" where
  "watched_model = m_bind 0 ''change:a'' (User (Observer 2)) observed_model"

text \<open>
  A sequence of calls on one collection. Each call runs to its end, or to the exception
  it throws; the next call finds the world as that one left it.
\<close>

datatype operation = InsertOne nat bool | RemoveOne reference bool | Sort bool

fun perform :: "nat \<Rightarrow> operation \<Rightarrow> ('k::linorder) world \<Rightarrow> 'k world" where
  "perform c (InsertOne m silent) w = snd (add_model c m silent w)"
| "perform c (RemoveOne r silent) w = snd (remove_model c r silent w)"
| "perform c (Sort silent) w = snd (sort_models c silent w)"

fun run :: "nat \<Rightarrow> operation list \<Rightarrow> ('k::linorder) world \<Rightarrow> 'k world" where
  "run c [] w = w"
| "run c (op # ops) w = run c ops (perform c op w)"

text \<open>
  Collection 0 sorted by rank, and four models of ranks 3, 1, 2 and 2 created at
  addresses 0 to 3; then the first three inserted, in the order of their creation.
\<close>

definition four_ranked :: "int world" where
  "four_ranked =
     snd (new_model ToNumber_decimal None [(''rank'', Num 2)]
       (snd (new_model ToNumber_decimal None [(''rank'', Num 2)]
          (snd (new_model ToNumber_decimal None [(''rank'', Num 1)]
             (snd (new_model ToNumber_decimal None [(''rank'', Num 3)]
                (blank_world (Some by_rank)))))))))"

definition three_inserted :: "int world" where
  "three_inserted = run 0 [InsertOne 0 False, InsertOne 1 False, InsertOne 2 False] four_ranked"

text \<open>
  The world \<open>_add\<close> has made when it comes to publish \<open>add\<close>, and the world \<open>_remove\<close>
  has made when it comes to publish \<open>remove\<close>.
\<close>

definition added :: "nat \<Rightarrow> nat \<Rightarrow> ('k::linorder) world \<Rightarrow> 'k world" where
  "added c m w =
     (let w1 = upd_c c (\<lambda>C. C\<lparr>c_byId := (c_byId C)(ToString (m_id (mheap w m)) \<mapsto> m)\<rparr>) w;
          w2 = upd_c c (\<lambda>C. C\<lparr>c_byCid := (c_byCid C)(m_cid (mheap w m) \<mapsto> m)\<rparr>) w1;
          w3 = upd_m m (\<lambda>M. M\<lparr>m_collection := Some c\<rparr>) w2;
          index = (case c_comparator (cheap w3 c) of
                     Some comparator \<Rightarrow>
                       int (sortedIndex (sort_key_of w3 comparator) (c_models (cheap w3 c)) m)
                   | None \<Rightarrow> c_length (cheap w3 c));
          w4 = upd_c c (\<lambda>C. C\<lparr>c_models := splice_insert index m (c_models C)\<rparr>) w3;
          w5 = upd_m m (\<lambda>M. M\<lparr>m_callbacks := bind ''all'' (BoundOnModelEvent c) (m_callbacks M)\<rparr>) w4
      in upd_c c (\<lambda>C. C\<lparr>c_length := c_length C + 1\<rparr>) w5)"

definition removed :: "nat \<Rightarrow> nat \<Rightarrow> 'k world \<Rightarrow> 'k world" where
  "removed c m w =
     (let w1 = upd_c c (\<lambda>C. C\<lparr>c_byId := (c_byId C)(ToString (m_id (mheap w m)) := None)\<rparr>) w;
          w2 = upd_c c (\<lambda>C. C\<lparr>c_byCid := (c_byCid C)(m_cid (mheap w m) := None)\<rparr>) w1;
          w3 = upd_m m (\<lambda>M. M\<lparr>m_collection := None\<rparr>) w2;
          w4 = upd_c c (\<lambda>C. C\<lparr>c_models := splice_remove (indexOf (c_models C) m) (c_models C)\<rparr>) w3;
          w5 = upd_m m (\<lambda>M. M\<lparr>m_callbacks :=
                 unbind (Some ''all'') (Some (BoundOnModelEvent c)) (m_callbacks M)\<rparr>) w4
      in upd_c c (\<lambda>C. C\<lparr>c_length := c_length C - 1\<rparr>) w5)"

text \<open>No attribute and no comparator has changed.\<close>

definition same_keys :: "'k world \<Rightarrow> 'k world \<Rightarrow> bool" where
  "same_keys w w' \<longleftrightarrow> (\<forall>r. m_attributes (mheap w' r) = m_attributes (mheap w r))
     \<and> (\<forall>c. c_comparator (cheap w' c) = c_comparator (cheap w c))"

text \<open>
  What the loop of \<open>set\<close> makes of the attribute hash, whether it changes it, and the
  model when the loop of a \<open>set\<close> that is not silent has ended: the \<open>id\<close> property and
  the attributes written, the flag raised if an attribute changed.
\<close>

fun patched :: "hash \<Rightarrow> hash \<Rightarrow> hash" where
  "patched now [] = now"
| "patched now ((attr, v) # rest) =
     (let val = (if v = Str [] then Null else v)
      in if isEqual (lookup now attr) val then patched now rest else patched (assign attr val now) rest)"

fun differs :: "hash \<Rightarrow> hash \<Rightarrow> bool" where
  "differs now [] = False"
| "differs now ((attr, v) # rest) =
     (let val = (if v = Str [] then Null else v)
      in if isEqual (lookup now attr) val then differs now rest else True)"

definition assigned :: "nat \<Rightarrow> hash \<Rightarrow> 'k world \<Rightarrow> 'k world" where
  "assigned m attrs w =
     upd_m m (\<lambda>M. M\<lparr>m_id := (if has_key ''id'' attrs then lookup attrs ''id'' else m_id M),
                      m_attributes := patched (m_attributes M) attrs,
                      m_changed := (m_changed M \<or> differs (m_attributes M) attrs)\<rparr>) w"

section \<open>Properties\<close>

subsection \<open>Publishing changes neither model data nor collection contents\<close>

lemma views_cong: "\<forall>r. m_data (h' r) = m_data (h r) \<Longrightarrow> views h' args = views h args"
  by (induction h args rule: views.induct) (auto simp: m_data_def)

lemma notified_refl: "notified w w"
  by (simp add: notified_def)

lemma notified_trans: "notified a b \<Longrightarrow> notified b c \<Longrightarrow> notified a c"
  unfolding notified_def
  apply (elim conjE exE)
  apply (intro conjI)
     apply simp
    apply simp
   apply simp
  subgoal for ns ms
    apply (rule exI[of _ "ns @ ms"])
    using views_cong[of "mheap b" "mheap a"] by auto
  done

lemma c_notified_refl: "c_notified w w"
  by (simp add: c_notified_def notified_refl)

lemma c_notified_trans: "c_notified a b \<Longrightarrow> c_notified b c \<Longrightarrow> c_notified a c"
  unfolding c_notified_def using notified_trans by auto

lemma fire_rel:
  assumes r: "\<And>w. R w w" and t: "\<And>a b c. R a b \<Longrightarrow> R b c \<Longrightarrow> R a c"
    and s: "\<And>h w. R w (snd (call h w))"
  shows "R w (snd (fire cur call k i w))"
proof (induction k arbitrary: i w)
  case 0
  show ?case by (simp add: r)
next
  case (Suc k)
  show ?case
  proof (cases "i < length (cur w)")
    case False
    then show ?thesis by (simp add: r)
  next
    case True
    obtain res w' where c: "call (cur w ! i) w = (res, w')" by (cases "call (cur w ! i) w")
    have 1: "R w w'" using s[of w "cur w ! i"] c by simp
    show ?thesis
    proof (cases res)
      case (Inl e)
      then show ?thesis using True c 1 by simp
    next
      case (Inr u)
      then show ?thesis using True c t[OF 1 Suc.IH[where i="Suc i" and w=w']] by simp
    qed
  qed
qed

lemma call_c_notified: "c_notified w (snd (call_c c args s w))"
  by (cases s) (auto simp: call_c_def c_notified_def notified_def observe_def set_c_callbacks_def c_data_def)

lemma trigger_c_notified: "c_notified w (snd (trigger_c c ev args w))"
proof (cases "c_callbacks (cheap w c)")
  case None
  then show ?thesis by (simp add: trigger_c_def c_notified_refl)
next
  case (Some calls)
  have f: "\<And>cur a k i w. c_notified w (snd (fire cur (call_c c a) k i w))"
    by (rule fire_rel[where R = c_notified]) (auto intro: c_notified_refl c_notified_trans call_c_notified)
  have f': "\<And>cur a k i w r w'. fire cur (call_c c a) k i w = (r, w') \<Longrightarrow> c_notified w w'"
    using f by (metis snd_conv)
  obtain r1 w1 where p1: "(case calls ev of None \<Rightarrow> (Inr (), w)
      | Some list \<Rightarrow> fire (c_list c ev) (call_c c args) (length list) 0 w) = (r1, w1)"
    by (cases "case calls ev of None \<Rightarrow> (Inr (), w)
      | Some list \<Rightarrow> fire (c_list c ev) (call_c c args) (length list) 0 w")
  have 1: "c_notified w w1"
    using p1 by (cases "calls ev") (auto simp: c_notified_refl dest: f')
  show ?thesis
  proof (cases r1)
    case (Inl e)
    then show ?thesis using Some p1 1 by (simp add: trigger_c_def)
  next
    case (Inr u)
    show ?thesis
    proof (cases "c_calls c ''all'' w1")
      case None
      then show ?thesis using Some p1 1 Inr by (simp add: trigger_c_def)
    next
      case (Some list)
      have "c_notified w1 (snd (fire (c_list c ''all'') (call_c c (EvName ev # args)) (length list) 0 w1))"
        by (rule f)
      then show ?thesis using \<open>c_callbacks (cheap w c) = Some calls\<close> p1 1 Inr Some
        by (auto simp: trigger_c_def intro: c_notified_trans)
    qed
  qed
qed

lemma rekey_notified: "notified w (rekey c m w)"
  by (auto simp: rekey_def notified_def Let_def c_data_def)

lemma c_notified_imp: "c_notified w w' \<Longrightarrow> notified w w'"
  by (simp add: c_notified_def)

lemma onModelEvent_notified: "notified w (snd (onModelEvent tn c args w))"
  unfolding onModelEvent_def
  by (auto split: list.splits arg.splits
      intro: notified_refl c_notified_imp[OF trigger_c_notified]
        notified_trans[OF rekey_notified c_notified_imp[OF trigger_c_notified]])

lemma call_m_notified: "notified w (snd (call_m tn m args h w))"
proof (cases h)
  case (BoundOnModelEvent c)
  then show ?thesis by (simp add: call_m_def onModelEvent_notified)
next
  case (User s)
  then show ?thesis
    by (cases s) (auto simp: call_m_def notified_def observe_def set_m_callbacks_def m_data_def)
qed

lemma trigger_m_notified: "notified w (snd (trigger_m tn m ev args w))"
proof (cases "m_callbacks (mheap w m)")
  case None
  then show ?thesis by (simp add: trigger_m_def notified_refl)
next
  case (Some calls)
  have f: "\<And>cur a k i w. notified w (snd (fire cur (call_m tn m a) k i w))"
    by (rule fire_rel[where R = notified]) (auto intro: notified_refl notified_trans call_m_notified)
  have f': "\<And>cur a k i w r w'. fire cur (call_m tn m a) k i w = (r, w') \<Longrightarrow> notified w w'"
    using f by (metis snd_conv)
  obtain r1 w1 where p1: "(case calls ev of None \<Rightarrow> (Inr (), w)
      | Some list \<Rightarrow> fire (m_list m ev) (call_m tn m args) (length list) 0 w) = (r1, w1)"
    by (cases "case calls ev of None \<Rightarrow> (Inr (), w)
      | Some list \<Rightarrow> fire (m_list m ev) (call_m tn m args) (length list) 0 w")
  have 1: "notified w w1"
    using p1 by (cases "calls ev") (auto simp: notified_refl dest: f')
  show ?thesis
  proof (cases r1)
    case (Inl e)
    then show ?thesis using Some p1 1 by (simp add: trigger_m_def)
  next
    case (Inr u)
    show ?thesis
    proof (cases "m_calls m ''all'' w1")
      case None
      then show ?thesis using Some p1 1 Inr by (simp add: trigger_m_def)
    next
      case (Some list)
      have "notified w1 (snd (fire (m_list m ''all'') (call_m tn m (EvName ev # args)) (length list) 0 w1))"
        by (rule f)
      then show ?thesis using \<open>m_callbacks (mheap w m) = Some calls\<close> p1 1 Inr Some
        by (auto simp: trigger_m_def intro: notified_trans)
    qed
  qed
qed

subsection \<open>What observers record\<close>

lemma sightings_drop:
  "i < length l \<Longrightarrow> l ! i = Observer t \<Longrightarrow>
   sightings this args h (drop i l) = Saw t this args (views h args) # sightings this args h (drop (Suc i) l)"
  by (simp flip: Cons_nth_drop_Suc)

lemma c_list_journal [simp]: "c_list c ev (w\<lparr>journal := j\<rparr>) = c_list c ev w"
  by (simp add: c_list_def c_calls_def)

lemma m_list_journal [simp]: "m_list m ev (w\<lparr>journal := j\<rparr>) = m_list m ev w"
  by (simp add: m_list_def m_calls_def)

lemma fire_c_observers:
  "list_all is_observer (c_list c ev w) \<Longrightarrow> i + k = length (c_list c ev w) \<Longrightarrow>
   fire (c_list c ev) (call_c c args) k i w =
     (Inr (), w\<lparr>journal := journal w @ sightings (OfCollection c) args (mheap w) (drop i (c_list c ev w))\<rparr>)"
proof (induction k arbitrary: i w)
  case 0
  then show ?case by simp
next
  case (Suc k)
  then have lt: "i < length (c_list c ev w)" by simp
  then have "is_observer (c_list c ev w ! i)" using Suc.prems(1) by (simp add: list_all_length)
  then obtain t where t: "c_list c ev w ! i = Observer t" by (cases "c_list c ev w ! i") auto
  let ?w1 = "observe t (OfCollection c) args w"
  have c: "call_c c args (c_list c ev w ! i) w = (Inr (), ?w1)" by (simp add: t call_c_def)
  have l1: "c_list c ev ?w1 = c_list c ev w" by (simp add: observe_def)
  have ih: "fire (c_list c ev) (call_c c args) k (Suc i) ?w1 =
     (Inr (), ?w1\<lparr>journal := journal ?w1 @ sightings (OfCollection c) args (mheap ?w1) (drop (Suc i) (c_list c ev ?w1))\<rparr>)"
    using Suc.prems by (intro Suc.IH) (simp_all add: l1)
  show ?case using lt c ih sightings_drop[OF lt t]
    by (simp add: l1 observe_def)
qed

lemma trigger_c_observers:
  assumes "list_all is_observer (c_list c ev w)" "list_all is_observer (c_list c ''all'' w)"
  shows "trigger_c c ev args w =
     (Inr (), w\<lparr>journal := journal w @ sightings (OfCollection c) args (mheap w) (c_list c ev w)
        @ sightings (OfCollection c) (EvName ev # args) (mheap w) (c_list c ''all'' w)\<rparr>)"
proof (cases "c_callbacks (cheap w c)")
  case None
  then show ?thesis by (simp add: trigger_c_def c_list_def c_calls_def)
next
  case (Some calls)
  let ?w1 = "w\<lparr>journal := journal w @ sightings (OfCollection c) args (mheap w) (c_list c ev w)\<rparr>"
  have p1: "(case calls ev of None \<Rightarrow> (Inr (), w)
      | Some list \<Rightarrow> fire (c_list c ev) (call_c c args) (length list) 0 w) = (Inr (), ?w1)"
  proof (cases "calls ev")
    case None
    then show ?thesis using Some by (simp add: c_list_def c_calls_def)
  next
    case (Some list)
    then have "c_list c ev w = list" using \<open>c_callbacks (cheap w c) = Some calls\<close>
      by (simp add: c_list_def c_calls_def)
    then show ?thesis using Some fire_c_observers[of c ev w 0 "length list" args] assms(1) by simp
  qed
  have a1: "c_list c ''all'' ?w1 = c_list c ''all'' w" by simp
  have p2: "(case c_calls c ''all'' ?w1 of None \<Rightarrow> (Inr (), ?w1)
      | Some list \<Rightarrow> fire (c_list c ''all'') (call_c c (EvName ev # args)) (length list) 0 ?w1)
     = (Inr (), ?w1\<lparr>journal := journal ?w1 @ sightings (OfCollection c) (EvName ev # args) (mheap ?w1) (c_list c ''all'' ?w1)\<rparr>)"
  proof (cases "c_calls c ''all'' ?w1")
    case None
    then show ?thesis by (simp add: c_list_def)
  next
    case (Some list)
    then have "c_list c ''all'' ?w1 = list" by (simp add: c_list_def)
    then show ?thesis using Some fire_c_observers[of c "''all''" ?w1 0 "length list" "EvName ev # args"] assms(2)
      by simp
  qed
  show ?thesis using Some p1 p2 by (simp add: trigger_c_def)
qed

lemma users_drop:
  "i < length l \<Longrightarrow> l ! i = User s \<Longrightarrow> users (drop i l) = s # users (drop (Suc i) l)"
  by (simp flip: Cons_nth_drop_Suc)

lemma fire_m_observers:
  "list_all observing (m_list m ev w) \<Longrightarrow> i + k = length (m_list m ev w) \<Longrightarrow>
   fire (m_list m ev) (call_m tn m args) k i w =
     (Inr (), w\<lparr>journal := journal w @ sightings (OfModel m) args (mheap w) (users (drop i (m_list m ev w)))\<rparr>)"
proof (induction k arbitrary: i w)
  case 0
  then show ?case by simp
next
  case (Suc k)
  then have lt: "i < length (m_list m ev w)" by simp
  then have "observing (m_list m ev w ! i)" using Suc.prems(1) by (simp add: list_all_length)
  then obtain t where t: "m_list m ev w ! i = User (Observer t)"
    by (cases "m_list m ev w ! i" rule: observing.cases) auto
  let ?w1 = "observe t (OfModel m) args w"
  have c: "call_m tn m args (m_list m ev w ! i) w = (Inr (), ?w1)" by (simp add: t call_m_def)
  have l1: "m_list m ev ?w1 = m_list m ev w" by (simp add: observe_def)
  have ih: "fire (m_list m ev) (call_m tn m args) k (Suc i) ?w1 =
     (Inr (), ?w1\<lparr>journal := journal ?w1 @ sightings (OfModel m) args (mheap ?w1) (users (drop (Suc i) (m_list m ev ?w1)))\<rparr>)"
    using Suc.prems by (intro Suc.IH) (simp_all add: l1)
  show ?case using lt c ih users_drop[OF lt t]
    by (simp add: l1 observe_def)
qed

lemma trigger_m_observers:
  assumes "list_all observing (m_list m ev w)" "list_all observing (m_list m ''all'' w)"
  shows "trigger_m tn m ev args w =
     (Inr (), w\<lparr>journal := journal w @ sightings (OfModel m) args (mheap w) (users (m_list m ev w))
        @ sightings (OfModel m) (EvName ev # args) (mheap w) (users (m_list m ''all'' w))\<rparr>)"
proof (cases "m_callbacks (mheap w m)")
  case None
  then show ?thesis by (simp add: trigger_m_def m_list_def m_calls_def)
next
  case (Some calls)
  let ?w1 = "w\<lparr>journal := journal w @ sightings (OfModel m) args (mheap w) (users (m_list m ev w))\<rparr>"
  have p1: "(case calls ev of None \<Rightarrow> (Inr (), w)
      | Some list \<Rightarrow> fire (m_list m ev) (call_m tn m args) (length list) 0 w) = (Inr (), ?w1)"
  proof (cases "calls ev")
    case None
    then show ?thesis using Some by (simp add: m_list_def m_calls_def)
  next
    case (Some list)
    then have "m_list m ev w = list" using \<open>m_callbacks (mheap w m) = Some calls\<close>
      by (simp add: m_list_def m_calls_def)
    then show ?thesis using Some fire_m_observers[of m ev w 0 "length list" tn args] assms(1) by simp
  qed
  have a1: "m_list m ''all'' ?w1 = m_list m ''all'' w" by simp
  have p2: "(case m_calls m ''all'' ?w1 of None \<Rightarrow> (Inr (), ?w1)
      | Some list \<Rightarrow> fire (m_list m ''all'') (call_m tn m (EvName ev # args)) (length list) 0 ?w1)
     = (Inr (), ?w1\<lparr>journal := journal ?w1 @ sightings (OfModel m) (EvName ev # args) (mheap ?w1) (users (m_list m ''all'' ?w1))\<rparr>)"
  proof (cases "m_calls m ''all'' ?w1")
    case None
    then show ?thesis by (simp add: m_list_def)
  next
    case (Some list)
    then have "m_list m ''all'' ?w1 = list" by (simp add: m_list_def)
    then show ?thesis using Some fire_m_observers[of m "''all''" ?w1 0 "length list" tn "EvName ev # args"] assms(2)
      by simp
  qed
  show ?thesis using Some p1 p2 by (simp add: trigger_m_def)
qed

lemma m_list_upd_m:
  "m_callbacks (f (mheap w m)) = m_callbacks (mheap w m) \<Longrightarrow> m_list r ev (upd_m m f w) = m_list r ev w"
  by (simp add: m_list_def m_calls_def upd_m_def)

lemma event_of_sightings:
  "map event_of (sightings this args h l) = map event_of (sightings this args h' l)"
  by (induction this args h l rule: sightings.induct) (simp_all add: event_of_def)

lemma unset_observed:
  assumes "list_all observing (m_list m (''change:'' @ attr) w)"
    "list_all observing (m_list m ''change'' w)" "list_all observing (m_list m ''all'' w)"
  shows "unset tn m attr False w =
    (Inr (lookup (m_attributes (mheap w m)) attr),
     upd_m m (\<lambda>M. M\<lparr>m_attributes := delete_key attr (m_attributes M),
                      m_previousAttributes := delete_key attr (m_attributes M), m_changed := False\<rparr>)
       (w\<lparr>journal := journal w
          @ sightings (OfModel m) [ModelArg m]
              (mheap (upd_m m (\<lambda>M. M\<lparr>m_attributes := delete_key attr (m_attributes M), m_changed := True\<rparr>) w))
              (users (m_list m (''change:'' @ attr) w))
          @ sightings (OfModel m) [EvName (''change:'' @ attr), ModelArg m]
              (mheap (upd_m m (\<lambda>M. M\<lparr>m_attributes := delete_key attr (m_attributes M), m_changed := True\<rparr>) w))
              (users (m_list m ''all'' w))
          @ sightings (OfModel m) [ModelArg m]
              (mheap (upd_m m (\<lambda>M. M\<lparr>m_attributes := delete_key attr (m_attributes M), m_changed := True\<rparr>) w))
              (users (m_list m ''change'' w))
          @ sightings (OfModel m) [EvName ''change'', ModelArg m]
              (mheap (upd_m m (\<lambda>M. M\<lparr>m_attributes := delete_key attr (m_attributes M), m_changed := True\<rparr>) w))
              (users (m_list m ''all'' w))\<rparr>))"
proof -
  let ?w1 = "upd_m m (\<lambda>M. M\<lparr>m_changed := True\<rparr>)
     (upd_m m (\<lambda>M. M\<lparr>m_attributes := delete_key attr (m_attributes M)\<rparr>) w)"
  have l1: "\<And>ev. m_list m ev ?w1 = m_list m ev w" by (simp add: m_list_upd_m)
  have h1: "mheap ?w1 = mheap (upd_m m (\<lambda>M. M\<lparr>m_attributes := delete_key attr (m_attributes M), m_changed := True\<rparr>) w)"
    by (simp add: upd_m_def)
  have t1: "trigger_m tn m (''change:'' @ attr) [ModelArg m] ?w1 =
     (Inr (), ?w1\<lparr>journal := journal ?w1 @ sightings (OfModel m) [ModelArg m] (mheap ?w1) (users (m_list m (''change:'' @ attr) ?w1))
        @ sightings (OfModel m) [EvName (''change:'' @ attr), ModelArg m] (mheap ?w1) (users (m_list m ''all'' ?w1))\<rparr>)"
    using assms by (intro trigger_m_observers) (simp_all add: l1)
  let ?w2 = "?w1\<lparr>journal := journal ?w1 @ sightings (OfModel m) [ModelArg m] (mheap ?w1) (users (m_list m (''change:'' @ attr) ?w1))
        @ sightings (OfModel m) [EvName (''change:'' @ attr), ModelArg m] (mheap ?w1) (users (m_list m ''all'' ?w1))\<rparr>"
  have t2: "trigger_m tn m ''change'' [ModelArg m] ?w2 =
     (Inr (), ?w2\<lparr>journal := journal ?w2 @ sightings (OfModel m) [ModelArg m] (mheap ?w2) (users (m_list m ''change'' ?w2))
        @ sightings (OfModel m) [EvName ''change'', ModelArg m] (mheap ?w2) (users (m_list m ''all'' ?w2))\<rparr>)"
    using assms by (intro trigger_m_observers) (simp_all add: l1)
  show ?thesis
    unfolding unset_def Let_def change_def
    apply (simp only: t1 if_True not_False_eq_True prod.case sum.case)
    apply (simp only: t2 prod.case sum.case)
    apply (simp add: l1 h1)
    apply (simp add: upd_m_def)
    done
qed

subsection \<open>The binary search and the sort order\<close>

lemma sortedIndex_loop_spec:
  "sorted (map f xs) \<Longrightarrow> low \<le> high \<Longrightarrow> high \<le> length xs \<Longrightarrow>
   (\<forall>j<low. f (xs ! j) < f x) \<Longrightarrow> (\<forall>j. high \<le> j \<and> j < length xs \<longrightarrow> f x \<le> f (xs ! j)) \<Longrightarrow>
   sortedIndex_loop f xs x low high \<le> length xs \<and>
   (\<forall>j<sortedIndex_loop f xs x low high. f (xs ! j) < f x) \<and>
   (\<forall>j. sortedIndex_loop f xs x low high \<le> j \<and> j < length xs \<longrightarrow> f x \<le> f (xs ! j))"
proof (induction f xs x low high rule: sortedIndex_loop.induct)
  case (1 f xs x low high)
  show ?case
  proof (cases "low < high")
    case False
    then have "low = high" using "1.prems" by simp
    then show ?thesis using "1.prems" by (simp add: sortedIndex_loop.simps[of f xs x high high])
  next
    case True
    let ?mid = "(low + high) div 2"
    have m: "low \<le> ?mid" "?mid < high" "?mid < length xs" using True "1.prems" by auto
    have mono: "\<And>i j. i \<le> j \<Longrightarrow> j < length xs \<Longrightarrow> f (xs ! i) \<le> f (xs ! j)"
      using "1.prems"(1) by (metis (no_types, lifting) le_less_trans length_map nth_map sorted_nth_mono)
    show ?thesis
    proof (cases "f (xs ! ?mid) < f x")
      case lt: True
      have a: "\<forall>j<?mid + 1. f (xs ! j) < f x"
      proof (intro allI impI)
        fix j assume "j < ?mid + 1"
        then have "f (xs ! j) \<le> f (xs ! ?mid)" using mono[of j ?mid] m by simp
        then show "f (xs ! j) < f x" using lt by simp
      qed
      have "sortedIndex_loop f xs x low high = sortedIndex_loop f xs x (?mid + 1) high"
        using True lt by (subst sortedIndex_loop.simps) (simp add: Let_def)
      moreover have "sortedIndex_loop f xs x (?mid + 1) high \<le> length xs \<and>
        (\<forall>j<sortedIndex_loop f xs x (?mid + 1) high. f (xs ! j) < f x) \<and>
        (\<forall>j. sortedIndex_loop f xs x (?mid + 1) high \<le> j \<and> j < length xs \<longrightarrow> f x \<le> f (xs ! j))"
        using "1.IH"(1)[OF True refl lt "1.prems"(1) _ "1.prems"(3) a "1.prems"(5)] m by simp
      ultimately show ?thesis by simp
    next
      case ge: False
      have b: "\<forall>j. ?mid \<le> j \<and> j < length xs \<longrightarrow> f x \<le> f (xs ! j)"
      proof (intro allI impI)
        fix j assume "?mid \<le> j \<and> j < length xs"
        then have "f (xs ! ?mid) \<le> f (xs ! j)" using mono[of ?mid j] by simp
        then show "f x \<le> f (xs ! j)" using ge by simp
      qed
      have "sortedIndex_loop f xs x low high = sortedIndex_loop f xs x low ?mid"
        using True ge by (subst sortedIndex_loop.simps) (simp add: Let_def)
      moreover have "sortedIndex_loop f xs x low ?mid \<le> length xs \<and>
        (\<forall>j<sortedIndex_loop f xs x low ?mid. f (xs ! j) < f x) \<and>
        (\<forall>j. sortedIndex_loop f xs x low ?mid \<le> j \<and> j < length xs \<longrightarrow> f x \<le> f (xs ! j))"
        using "1.IH"(2)[OF True refl ge "1.prems"(1) m(1) _ "1.prems"(4) b] m by simp
      ultimately show ?thesis by simp
    qed
  qed
qed

lemma sortedIndex_spec:
  assumes "sorted (map f xs)"
  shows "sortedIndex f xs x \<le> length xs"
    and "\<forall>j<sortedIndex f xs x. f (xs ! j) < f x"
    and "\<forall>j. sortedIndex f xs x \<le> j \<and> j < length xs \<longrightarrow> f x \<le> f (xs ! j)"
proof -
  have "\<forall>j. length xs \<le> j \<and> j < length xs \<longrightarrow> f x \<le> f (xs ! j)" by auto
  then have "sortedIndex_loop f xs x 0 (length xs) \<le> length xs \<and>
   (\<forall>j<sortedIndex_loop f xs x 0 (length xs). f (xs ! j) < f x) \<and>
   (\<forall>j. sortedIndex_loop f xs x 0 (length xs) \<le> j \<and> j < length xs \<longrightarrow> f x \<le> f (xs ! j))"
    by (intro sortedIndex_loop_spec[OF assms]) simp_all
  then show "sortedIndex f xs x \<le> length xs"
    and "\<forall>j<sortedIndex f xs x. f (xs ! j) < f x"
    and "\<forall>j. sortedIndex f xs x \<le> j \<and> j < length xs \<longrightarrow> f x \<le> f (xs ! j)"
    by (simp_all add: sortedIndex_def)
qed

lemma sortedIndex_takeWhile:
  assumes "sorted (map f xs)"
  shows "take (sortedIndex f xs x) xs = takeWhile (\<lambda>y. f y < f x) xs"
    and "drop (sortedIndex f xs x) xs = dropWhile (\<lambda>y. f y < f x) xs"
proof -
  note s = sortedIndex_spec[OF assms, of x]
  show t: "take (sortedIndex f xs x) xs = takeWhile (\<lambda>y. f y < f x) xs"
    by (rule takeWhile_eq_take_P_nth[symmetric]) (use s in \<open>auto simp: not_less\<close>)
  have "length (takeWhile (\<lambda>y. f y < f x) xs) = sortedIndex f xs x"
    using t[symmetric] s(1) by simp
  then show "drop (sortedIndex f xs x) xs = dropWhile (\<lambda>y. f y < f x) xs"
    by (simp add: dropWhile_eq_drop)
qed

lemma sorted_insert_at:
  assumes "sorted (map f xs)"
  shows "sorted (map f (takeWhile (\<lambda>y. f y < f x) xs @ x # dropWhile (\<lambda>y. f y < f x) xs))"
proof -
  have 1: "sorted (map f (takeWhile (\<lambda>y. f y < f x) xs))" "sorted (map f (dropWhile (\<lambda>y. f y < f x) xs))"
    using assms sortedIndex_takeWhile[OF assms, of x, symmetric]
    by (simp_all add: sorted_map del: sorted_wrt_take sorted_wrt_drop) (metis sorted_wrt_take, metis sorted_wrt_drop)
  have 2: "\<forall>y\<in>set (takeWhile (\<lambda>y. f y < f x) xs). f y < f x"
    by (auto dest: set_takeWhileD)
  have 3: "\<forall>y\<in>set (dropWhile (\<lambda>y. f y < f x) xs). f x \<le> f y"
  proof
    fix y assume "y \<in> set (dropWhile (\<lambda>y. f y < f x) xs)"
    then have "y \<in> set (drop (sortedIndex f xs x) xs)" by (simp add: sortedIndex_takeWhile[OF assms])
    then obtain j where "sortedIndex f xs x \<le> j" "j < length xs" "y = xs ! j"
      by (auto simp: in_set_conv_nth) (metis add.commute le_add2 less_diff_conv)
    then show "f x \<le> f y" using sortedIndex_spec(3)[OF assms, of x] by simp
  qed
  show ?thesis using 1 2 3 by (fastforce simp: sorted_append)
qed

lemma sorted_splice_remove:
  assumes "sorted (map f xs)"
  shows "sorted (map f (splice_remove i xs))"
proof -
  let ?n = "splice_start i xs"
  have "sorted_wrt (\<lambda>a b. f a \<le> f b) (take ?n xs @ drop ?n xs)" using assms by (simp add: sorted_map)
  then have "sorted_wrt (\<lambda>a b. f a \<le> f b) (take ?n xs @ drop (Suc ?n) xs)"
    unfolding sorted_wrt_append using sorted_wrt_drop[of _ "drop ?n xs" 1] set_drop_subset[of 1 "drop ?n xs"]
    by (auto simp: )
  then show ?thesis unfolding splice_remove_def sorted_map .
qed

lemma c_notified_proj:
  assumes "c_notified w w'"
  shows "mheap w' = mheap w" "c_models (cheap w' x) = c_models (cheap w x)"
    "c_comparator (cheap w' x) = c_comparator (cheap w x)" "c_length (cheap w' x) = c_length (cheap w x)"
    "c_byId (cheap w' x) = c_byId (cheap w x)" "c_byCid (cheap w' x) = c_byCid (cheap w x)"
proof -
  have "c_data (cheap w' x) = c_data (cheap w x)" using assms by (simp add: c_notified_def notified_def)
  then show "c_models (cheap w' x) = c_models (cheap w x)"
    "c_comparator (cheap w' x) = c_comparator (cheap w x)" "c_length (cheap w' x) = c_length (cheap w x)"
    "c_byCid (cheap w' x) = c_byCid (cheap w x)"
    by (simp_all add: c_data_def)
  show "mheap w' = mheap w" "c_byId (cheap w' x) = c_byId (cheap w x)"
    using assms by (simp_all add: c_notified_def)
qed

lemmas trigger_c_proj = c_notified_proj[OF trigger_c_notified]

lemma sort_key_of_cong:
  "(\<And>r. m_attributes (mheap w' r) = m_attributes (mheap w r)) \<Longrightarrow> sort_key_of w' cmp = sort_key_of w cmp"
  by (rule ext) (simp add: sort_key_of_def)

lemma splice_insert_nat: "i \<le> length xs \<Longrightarrow> splice_insert (int i) x xs = take i xs @ x # drop i xs"
  by (simp add: splice_insert_def splice_start_def Let_def min_def)

lemma add_model_added:
  "get w c (ByModel m) = None \<Longrightarrow>
   add_model c m silent w =
     (if silent then (Inr m, added c m w)
      else (case trigger_c c ''add'' [ModelArg m] (added c m w) of
              (Inl e, w7) \<Rightarrow> (Inl e, w7)
            | (Inr _, w7) \<Rightarrow> (Inr m, w7)))"
  by (simp add: add_model_def added_def Let_def)

lemma snd_add_model:
  "get w c (ByModel m) = None \<Longrightarrow>
   snd (add_model c m silent w) = (if silent then added c m w else snd (trigger_c c ''add'' [ModelArg m] (added c m w)))"
  by (simp add: add_model_added split: prod.splits sum.splits)

lemma added_models:
  assumes "c_comparator (cheap w c) = Some cmp"
  shows "c_models (cheap (added c m w) c) =
     splice_insert (int (sortedIndex (sort_key_of w cmp) (c_models (cheap w c)) m)) m (c_models (cheap w c))"
proof -
  let ?w3 = "upd_m m (\<lambda>M. M\<lparr>m_collection := Some c\<rparr>)
     (upd_c c (\<lambda>C. C\<lparr>c_byCid := (c_byCid C)(m_cid (mheap w m) \<mapsto> m)\<rparr>)
       (upd_c c (\<lambda>C. C\<lparr>c_byId := (c_byId C)(ToString (m_id (mheap w m)) \<mapsto> m)\<rparr>) w))"
  have k: "sort_key_of ?w3 cmp = sort_key_of w cmp"
    by (rule sort_key_of_cong) (simp add: upd_m_def upd_c_def)
  have c3: "c_comparator (cheap ?w3 c) = Some cmp" "c_models (cheap ?w3 c) = c_models (cheap w c)"
    using assms(1) by (simp_all add: upd_m_def upd_c_def)
  show ?thesis
    unfolding added_def Let_def c3 option.case k
    by (simp add: upd_m_def upd_c_def)
qed

lemma add_model_order:
  assumes "c_comparator (cheap w c) = Some cmp" and "get w c (ByModel m) = None"
    and "sorted (map (sort_key_of w cmp) (c_models (cheap w c)))"
  shows "c_models (cheap (snd (add_model c m silent w)) c) =
      takeWhile (\<lambda>x. sort_key_of w cmp x < sort_key_of w cmp m) (c_models (cheap w c))
      @ m # dropWhile (\<lambda>x. sort_key_of w cmp x < sort_key_of w cmp m) (c_models (cheap w c))"
proof -
  let ?i = "sortedIndex (sort_key_of w cmp) (c_models (cheap w c)) m"
  have i: "?i \<le> length (c_models (cheap w c))" using sortedIndex_spec(1)[OF assms(3)] .
  have "c_models (cheap (snd (add_model c m silent w)) c) = splice_insert (int ?i) m (c_models (cheap w c))"
    using assms(1,2) by (simp add: snd_add_model trigger_c_proj added_models)
  then show ?thesis
    using i sortedIndex_takeWhile[OF assms(3), of m] by (simp add: splice_insert_nat)
qed

lemma added_same_keys: "same_keys w (added c m w)"
  by (simp add: same_keys_def added_def Let_def upd_m_def upd_c_def)

lemma add_model_same_keys: "same_keys w (snd (add_model c m silent w))"
proof (cases "get w c (ByModel m)")
  case (Some a)
  then show ?thesis by (simp add: add_model_def same_keys_def)
next
  case None
  then show ?thesis using added_same_keys[where w=w and c=c and m=m]
    by (simp add: snd_add_model trigger_c_proj same_keys_def)
qed

lemma snd_remove_model:
  "snd (remove_model c r silent w) =
     (case get w c r of None \<Rightarrow> w
      | Some m \<Rightarrow> if silent then removed c m w else snd (trigger_c c ''remove'' [ModelArg m] (removed c m w)))"
  by (simp add: remove_model_def removed_def Let_def split: option.splits prod.splits sum.splits)

lemma removed_facts:
  "same_keys w (removed c m w)"
  "c_models (cheap (removed c m w) c) = splice_remove (indexOf (c_models (cheap w c)) m) (c_models (cheap w c))"
  by (simp_all add: same_keys_def removed_def Let_def upd_m_def upd_c_def)

lemma perform_sorted:
  assumes "c_comparator (cheap w c) = Some cmp" and "sorted (map (sort_key_of w cmp) (c_models (cheap w c)))"
  shows "same_keys w (perform c op w)
    \<and> sorted (map (sort_key_of w cmp) (c_models (cheap (perform c op w) c)))"
proof (cases op)
  case (InsertOne m silent)
  show ?thesis
  proof (cases "get w c (ByModel m)")
    case (Some a)
    then show ?thesis using assms InsertOne by (simp add: add_model_def same_keys_def)
  next
    case None
    show ?thesis using InsertOne add_model_same_keys[where w=w and c=c and m=m and silent=silent]
        add_model_order[OF assms(1) None assms(2), of silent] sorted_insert_at[OF assms(2), of m]
      by simp
  qed
next
  case (RemoveOne r silent)
  show ?thesis
  proof (cases "get w c r")
    case None
    then show ?thesis using assms RemoveOne by (simp add: snd_remove_model same_keys_def)
  next
    case (Some m)
    then show ?thesis using assms RemoveOne removed_facts[where w=w and c=c and m=m] sorted_splice_remove[OF assms(2)]
      by (simp add: snd_remove_model trigger_c_proj same_keys_def)
  qed
next
  case (Sort silent)
  have "sorted (map (sort_key_of w cmp) (sortBy (sort_key_of w cmp) (c_models (cheap w c))))"
    by (simp add: sortBy_def)
  then show ?thesis using assms Sort
    by (simp add: sort_models_def Let_def trigger_c_proj same_keys_def upd_c_def)
qed

lemma run_sorted:
  assumes "c_comparator (cheap w c) = Some cmp" and "sorted (map (sort_key_of w cmp) (c_models (cheap w c)))"
  shows "c_comparator (cheap (run c ops w) c) = Some cmp
    \<and> sort_key_of (run c ops w) cmp = sort_key_of w cmp
    \<and> sorted (map (sort_key_of w cmp) (c_models (cheap (run c ops w) c)))"
  using assms
proof (induction ops arbitrary: w)
  case Nil
  then show ?case by simp
next
  case (Cons op ops)
  note p = perform_sorted[OF Cons.prems, of op]
  have k: "sort_key_of (perform c op w) cmp = sort_key_of w cmp"
    using p by (intro sort_key_of_cong) (simp add: same_keys_def)
  have c: "c_comparator (cheap (perform c op w) c) = Some cmp"
    using p Cons.prems(1) by (simp add: same_keys_def)
  have s: "sorted (map (sort_key_of (perform c op w) cmp) (c_models (cheap (perform c op w) c)))"
    using p k by simp
  show ?case using Cons.IH[OF c s] k by simp
qed

subsection \<open>A model whose events go to its collection\<close>

lemma trigger_m_bound:
  assumes "m_list m ev w = []" and "m_list m ''all'' w = [BoundOnModelEvent c]"
  shows "trigger_m tn m ev args w = onModelEvent tn c (EvName ev # args) w"
proof -
  obtain calls where c: "m_callbacks (mheap w m) = Some calls" "calls ''all'' = Some [BoundOnModelEvent c]"
    using assms(2) by (auto simp: m_list_def m_calls_def split: option.splits)
  have p1: "(case calls ev of None \<Rightarrow> (Inr (), w)
      | Some list \<Rightarrow> fire (m_list m ev) (call_m tn m args) (length list) 0 w) = (Inr (), w)"
    using assms(1) c by (auto simp: m_list_def m_calls_def split: option.splits)
  obtain r w' where o: "onModelEvent tn c (EvName ev # args) w = (r, w')"
    by (cases "onModelEvent tn c (EvName ev # args) w")
  have a: "m_calls m ''all'' w = Some [BoundOnModelEvent c]" using c by (simp add: m_calls_def)
  show ?thesis
    unfolding trigger_m_def c option.case p1 prod.case sum.case a
    using assms(2) o by (cases r) (simp_all add: call_m_def)
qed

lemma m_list_assigned [simp]: "m_list r ev (assigned m attrs w) = m_list r ev w"
  by (simp add: assigned_def m_list_upd_m)

lemma update_attrs_silent:
  "update_attrs tn m True attrs w =
     (Inr (), upd_m m (\<lambda>M. M\<lparr>m_attributes := patched (m_attributes M) attrs\<rparr>) w)"
proof (induction attrs arbitrary: w)
  case Nil
  then show ?case by (simp add: upd_m_def)
next
  case (Cons a attrs)
  obtain k v where a: "a = (k, v)" by (cases a)
  show ?case unfolding a
    by (simp add: Cons.IH Let_def) (simp add: upd_m_def)
qed

lemma update_attrs_bound:
  assumes "m_list m ''all'' w = [BoundOnModelEvent c]"
    and "list_all (\<lambda>(k, v). m_list m (''change:'' @ k) w = []) attrs"
  shows "update_attrs tn m False attrs w =
     (Inr (), upd_m m (\<lambda>M. M\<lparr>m_attributes := patched (m_attributes M) attrs,
                               m_changed := (m_changed M \<or> differs (m_attributes M) attrs)\<rparr>) w)"
  using assms
proof (induction attrs arbitrary: w)
  case Nil
  then show ?case by (simp add: upd_m_def)
next
  case (Cons a attrs)
  obtain k v where a: "a = (k, v)" by (cases a)
  let ?val = "if v = Str [] then Null else v"
  show ?case
  proof (cases "isEqual (lookup (m_attributes (mheap w m)) k) ?val")
    case True
    then show ?thesis using Cons.prems Cons.IH[of w] unfolding a
      by (simp add: Let_def upd_m_def)
  next
    case False
    let ?w1 = "upd_m m (\<lambda>M. M\<lparr>m_changed := True\<rparr>)
       (upd_m m (\<lambda>M. M\<lparr>m_attributes := assign k ?val (m_attributes M)\<rparr>) w)"
    have l: "\<And>ev. m_list m ev ?w1 = m_list m ev w" by (simp add: m_list_upd_m)
    have t: "trigger_m tn m (''change:'' @ k) [ModelArg m, ValArg ?val] ?w1 = (Inr (), ?w1)"
      using Cons.prems unfolding a
      by (subst trigger_m_bound[where c=c]) (simp_all add: l onModelEvent_def)
    have ih: "update_attrs tn m False attrs ?w1 =
       (Inr (), upd_m m (\<lambda>M. M\<lparr>m_attributes := patched (m_attributes M) attrs,
                               m_changed := (m_changed M \<or> differs (m_attributes M) attrs)\<rparr>) ?w1)"
      using Cons.prems unfolding a by (intro Cons.IH) (simp_all add: l)
    show ?thesis unfolding a using False
      apply (simp only: update_attrs.simps Let_def if_True simp_thms t prod.case sum.case ih)
      apply (simp add: upd_m_def Let_def)
      done
  qed
qed

lemma lookup_assign: "lookup (assign a x now) k = (if k = a then x else lookup now k)"
  by (simp add: lookup_def assign_def update_conv')

lemma patched_other: "k \<notin> fst ` set p \<Longrightarrow> lookup (patched now p) k = lookup now k"
  by (induction now p rule: patched.induct) (auto simp: Let_def lookup_assign)

lemma patched_key:
  "distinct (map fst p) \<Longrightarrow> (k, v) \<in> set p \<Longrightarrow>
   lookup (patched now p) k = (if v = Str [] then Null else v)"
proof (induction now p rule: patched.induct)
  case (1 now)
  then show ?case by simp
next
  case (2 now attr x rest)
  show ?case
  proof (cases "(k, v) = (attr, x)")
    case True
    then have "k \<notin> fst ` set rest" using "2.prems"(1) by auto
    then show ?thesis using True
      by (auto simp: Let_def patched_other lookup_assign isEqual_def)
  next
    case False
    then have "(k, v) \<in> set rest" using "2.prems"(2) by auto
    then show ?thesis using "2.IH" "2.prems"(1) by (auto simp: Let_def)
  qed
qed

lemma differs_key:
  "(k, v) \<in> set p \<Longrightarrow> lookup now k \<noteq> (if v = Str [] then Null else v) \<Longrightarrow> differs now p"
  by (induction now p rule: differs.induct) (auto simp: Let_def isEqual_def)

lemma lookup_distinct: "distinct (map fst p) \<Longrightarrow> (k, v) \<in> set p \<Longrightarrow> lookup p k = v \<and> has_key k p"
  by (force simp: lookup_def has_key_def)

lemma loose_eq_refl: "loose_eq tn x x"
  by (cases x) simp_all

lemma set_attrs_bound:
  assumes "m_list m ''all'' w = [BoundOnModelEvent c]" and "m_list m ''change'' w = []"
    and "list_all (\<lambda>(k, v). m_list m (''change:'' @ k) w = []) attrs"
    and "\<not> truthy (case m_validate (mheap w m) of None \<Rightarrow> Undefined | Some validate \<Rightarrow> validate attrs)"
    and "m_changed (mheap (assigned m attrs w) m)"
  shows "set_attrs tn m (Attrs attrs) False w =
     (case trigger_c c ''change'' [ModelArg m]
             (if hasChanged tn (mheap (assigned m attrs w) m) (Some ''id'')
              then rekey c m (assigned m attrs w) else assigned m attrs w) of
        (Inl e, w') \<Rightarrow> (Inl e, w')
      | (Inr u, w') \<Rightarrow>
          (Inr True, upd_m m (\<lambda>M. M\<lparr>m_previousAttributes := m_attributes M, m_changed := False\<rparr>) w'))"
proof -
  let ?w1 = "if has_key ''id'' attrs then upd_m m (\<lambda>M. M\<lparr>m_id := lookup attrs ''id''\<rparr>) w else w"
  have l: "\<And>ev. m_list m ev ?w1 = m_list m ev w" by (simp add: m_list_upd_m)
  have u: "update_attrs tn m False attrs ?w1 = (Inr (), assigned m attrs w)"
    using assms(1,3)
    by (subst update_attrs_bound[where c=c]) (auto simp: l assigned_def upd_m_def)
  have t: "trigger_m tn m ''change'' [ModelArg m] (assigned m attrs w) =
      trigger_c c ''change'' [ModelArg m]
             (if hasChanged tn (mheap (assigned m attrs w) m) (Some ''id'')
              then rekey c m (assigned m attrs w) else assigned m attrs w)"
    using assms(1,2) by (subst trigger_m_bound[where c=c]) (simp_all add: onModelEvent_def)
  show ?thesis
    using assms(4,5)
    apply (simp only: set_attrs_def patch.case attrs_of_def Let_def if_False u prod.case sum.case
        simp_thms if_True change_def t)
    apply (simp split: prod.splits sum.splits)
    done
qed

subsection \<open>What refresh touches\<close>

lemma trigger_m_no_callbacks: "m_callbacks (mheap w m) = None \<Longrightarrow> trigger_m tn m ev args w = (Inr (), w)"
  by (simp add: trigger_m_def)

lemma set_attrs_blank:
  assumes "m_callbacks (mheap w n) = None"
  shows "\<exists>b f. set_attrs tn n (Attrs attrs) True w = (Inr b, upd_m n f w)"
proof (cases "truthy (case m_validate (mheap w n) of None \<Rightarrow> Undefined | Some validate \<Rightarrow> validate attrs)")
  case True
  have "set_attrs tn n (Attrs attrs) True w = (Inr False, upd_m n (\<lambda>M. M) w)"
    using True trigger_m_no_callbacks[OF assms] by (simp add: set_attrs_def attrs_of_def Let_def upd_m_def)
  then show ?thesis by blast
next
  case False
  have "set_attrs tn n (Attrs attrs) True w =
    (Inr True, upd_m n (\<lambda>M. M\<lparr>m_id := (if has_key ''id'' attrs then lookup attrs ''id'' else m_id M),
       m_attributes := patched (m_attributes M) attrs\<rparr>) w)"
    using False by (simp add: set_attrs_def attrs_of_def Let_def update_attrs_silent upd_m_def)
  then show ?thesis by blast
qed

lemma new_model_frame:
  "\<exists>M. new_model tn validate attrs w =
     (Inr (idCounter w), w\<lparr>mheap := (mheap w)(idCounter w := M), idCounter := Suc (idCounter w)\<rparr>)"
proof -
  let ?n = "idCounter w"
  let ?w0 = "w\<lparr>mheap := (mheap w)(?n := blank_model validate ?n), idCounter := Suc ?n\<rparr>"
  have c: "m_callbacks (mheap ?w0 ?n) = None" by (simp add: blank_model_def)
  obtain b f where s: "set_attrs tn ?n (Attrs attrs) True ?w0 = (Inr b, upd_m ?n f ?w0)"
    using set_attrs_blank[OF c] by blast
  have "new_model tn validate attrs w =
     (Inr ?n, w\<lparr>mheap := (mheap w)(?n := (f (blank_model validate ?n))\<lparr>m_previousAttributes :=
        m_attributes (f (blank_model validate ?n))\<rparr>), idCounter := Suc ?n\<rparr>)"
    unfolding new_model_def Let_def s by (simp add: upd_m_def)
  then show ?thesis by blast
qed

lemma materialize_frame:
  "\<exists>ns h. materialize tn validate hs w =
     (Inr ns, w\<lparr>mheap := h, idCounter := idCounter w + length hs\<rparr>)
     \<and> (\<forall>r<idCounter w. h r = mheap w r) \<and> (\<forall>n\<in>set ns. idCounter w \<le> n)"
proof (induction hs arbitrary: w)
  case Nil
  show ?case by (intro exI[of _ "[]"] exI[of _ "mheap w"]) simp
next
  case (Cons a hs)
  obtain M where n: "new_model tn validate a w =
     (Inr (idCounter w), w\<lparr>mheap := (mheap w)(idCounter w := M), idCounter := Suc (idCounter w)\<rparr>)"
    using new_model_frame by blast
  let ?w1 = "w\<lparr>mheap := (mheap w)(idCounter w := M), idCounter := Suc (idCounter w)\<rparr>"
  obtain ns h where h: "materialize tn validate hs ?w1 =
     (Inr ns, ?w1\<lparr>mheap := h, idCounter := idCounter ?w1 + length hs\<rparr>)"
     "\<forall>r<idCounter ?w1. h r = mheap ?w1 r" "\<forall>n\<in>set ns. idCounter ?w1 \<le> n"
    using Cons.IH[of ?w1] by blast
  have "materialize tn validate (a # hs) w =
     (Inr (idCounter w # ns), w\<lparr>mheap := h, idCounter := idCounter w + length (a # hs)\<rparr>)"
    using n h(1) by simp
  moreover have "\<forall>r<idCounter w. h r = mheap w r" using h(2) by simp
  moreover have "\<forall>n\<in>set (idCounter w # ns). idCounter w \<le> n" using h(3) by auto
  ultimately show ?case by blast
qed

lemma added_mheap: "r \<noteq> m \<Longrightarrow> mheap (added c m w) r = mheap w r"
  by (simp add: added_def Let_def upd_m_def upd_c_def)

lemma added_c_models:
  "set (c_models (cheap (added c m w) c)) \<subseteq> insert m (set (c_models (cheap w c)))"
  by (auto simp: added_def Let_def upd_m_def upd_c_def splice_insert_def dest: in_set_takeD in_set_dropD)

lemma add_silent_frame:
  "(r \<notin> set ms \<longrightarrow> mheap (snd (add c ms True w)) r = mheap w r)
   \<and> set (c_models (cheap (snd (add c ms True w)) c)) \<subseteq> set (c_models (cheap w c)) \<union> set ms"
proof (induction ms arbitrary: w)
  case Nil
  then show ?case by simp
next
  case (Cons m ms)
  show ?case
  proof (cases "get w c (ByModel m)")
    case (Some a)
    then show ?thesis by (auto simp: add_model_def)
  next
    case None
    have a: "add_model c m True w = (Inr m, added c m w)" using None by (simp add: add_model_added)
    show ?thesis using Cons.IH[of "added c m w"] added_mheap[of r m c w] added_c_models[of c m w]
      by (auto simp: a)
  qed
qed

lemma refresh_frame:
  assumes "case models of Models ms \<Rightarrow> e \<notin> set ms | Raws hs \<Rightarrow> e < idCounter w"
  shows "mheap (snd (refresh tn c models silent w)) e = mheap w e"
    and "e \<notin> set (c_models (cheap (snd (refresh tn c models silent w)) c))"
proof -
  obtain ms w1 where m: "(case models of Models ms \<Rightarrow> (Inr ms, w)
            | Raws hs \<Rightarrow> materialize tn (c_model (cheap w c)) hs w) = (Inr ms, w1)"
     and e1: "mheap w1 e = mheap w e" and ems: "e \<notin> set ms"
  proof (cases models)
    case (Models ms)
    then show ?thesis using assms that[of ms w] by simp
  next
    case (Raws hs)
    obtain ns h where h: "materialize tn (c_model (cheap w c)) hs w =
     (Inr ns, w\<lparr>mheap := h, idCounter := idCounter w + length hs\<rparr>)"
     "\<forall>r<idCounter w. h r = mheap w r" "\<forall>n\<in>set ns. idCounter w \<le> n"
      using materialize_frame by blast
    show ?thesis using Raws assms h
      by (intro that[of ns "w\<lparr>mheap := h, idCounter := idCounter w + length hs\<rparr>"]) auto
  qed
  let ?w2 = "snd (add c ms True (initialize c w1))"
  have i: "mheap (initialize c w1) = mheap w1" "c_models (cheap (initialize c w1) c) = []"
    by (simp_all add: initialize_def upd_c_def)
  have a: "mheap ?w2 e = mheap w e" "e \<notin> set (c_models (cheap ?w2 c))"
    using add_silent_frame[of e ms c "initialize c w1"] ems e1 i by auto
  have r: "snd (refresh tn c models silent w) = ?w2
     \<or> snd (refresh tn c models silent w) = snd (trigger_c c ''refresh'' [CollectionArg c] ?w2)"
    unfolding refresh_def m by (auto split: prod.splits sum.splits)
  show "mheap (snd (refresh tn c models silent w)) e = mheap w e"
    and "e \<notin> set (c_models (cheap (snd (refresh tn c models silent w)) c))"
    using r a by (auto simp: trigger_c_proj)
qed

lemma set_attrs_rejected:
  assumes "p \<noteq> NoAttrs" and "m_validate (mheap w m) = Some validate"
    and "truthy (validate (attrs_of w p))"
  shows "set_attrs tn m p silent w =
           (case trigger_m tn m ''error'' [ModelArg m, ValArg (validate (attrs_of w p))] w of
              (Inl e, w1) \<Rightarrow> (Inl e, w1)
            | (Inr u, w1) \<Rightarrow> (Inr False, w1))"
  using assms by (cases p) (simp_all add: set_attrs_def Let_def)

lemma set_attrs_rekeys:
  assumes "m_list m ''all'' w = [BoundOnModelEvent c]" and "m_list m ''change'' w = []"
    and "list_all (\<lambda>(k, v). m_list m (''change:'' @ k) w = []) attrs"
    and "\<not> truthy (case m_validate (mheap w m) of None \<Rightarrow> Undefined | Some validate \<Rightarrow> validate attrs)"
    and "distinct (map fst attrs)" and "(''id'', v) \<in> set attrs" and "truthy v"
    and "lookup (m_attributes (mheap w m)) ''id'' = m_id (mheap w m)"
    and "lookup (m_previousAttributes (mheap w m)) ''id'' = m_id (mheap w m)"
    and "\<not> loose_eq tn (m_id (mheap w m)) v"
    and "ToString (m_id (mheap w m)) \<noteq> ToString v"
    and "w' = snd (set_attrs tn m (Attrs attrs) False w)"
  shows "set_attrs tn m (Attrs attrs) False w =
      (case trigger_c c ''change'' [ModelArg m] (rekey c m (assigned m attrs w)) of
         (Inl e, w1) \<Rightarrow> (Inl e, w1)
       | (Inr u, w1) \<Rightarrow>
           (Inr True, upd_m m (\<lambda>M. M\<lparr>m_previousAttributes := m_attributes M, m_changed := False\<rparr>) w1))
    \<and> get w' c (ByValue v) = Some m
    \<and> c_byId (cheap w' c) (ToString (m_id (mheap w m))) = None
    \<and> m_id (mheap w' m) = v
    \<and> (list_all is_observer (c_list c ''change'' w) \<and> list_all is_observer (c_list c ''all'' w) \<longrightarrow>
         fst (set_attrs tn m (Attrs attrs) False w) = Inr True
         \<and> journal w' = journal w
              @ c_published c ''change'' [ModelArg m] (mheap (assigned m attrs w)) w)"
proof -
  let ?A = "assigned m attrs w"
  have nv: "(if v = Str [] then Null else v) = v" using assms(7) by auto
  have ne: "m_id (mheap w m) \<noteq> v" using assms(10) loose_eq_refl by metis
  have d: "differs (m_attributes (mheap w m)) attrs"
    using differs_key[OF assms(6)] assms(8) ne nv by simp
  have ch: "m_changed (mheap ?A m)" using d by (simp add: assigned_def upd_m_def)
  have la: "lookup attrs ''id'' = v" "has_key ''id'' attrs"
    using lookup_distinct[OF assms(5,6)] by simp_all
  have ida: "m_id (mheap ?A m) = v" using la by (simp add: assigned_def upd_m_def)
  have pa: "lookup (m_attributes (mheap ?A m)) ''id'' = v"
    using patched_key[OF assms(5,6)] nv by (simp add: assigned_def upd_m_def)
  have pp: "previous (mheap ?A m) ''id'' = m_id (mheap w m)"
    using assms(9) by (simp add: assigned_def upd_m_def previous_def)
  have hc: "hasChanged tn (mheap ?A m) (Some ''id'')"
    using assms(9,10) pa by (simp add: hasChanged_def assigned_def upd_m_def)
  note s = set_attrs_bound[OF assms(1-4) ch, of tn]
  have 1: "set_attrs tn m (Attrs attrs) False w =
      (case trigger_c c ''change'' [ModelArg m] (rekey c m ?A) of
         (Inl e, w1) \<Rightarrow> (Inl e, w1)
       | (Inr u, w1) \<Rightarrow>
           (Inr True, upd_m m (\<lambda>M. M\<lparr>m_previousAttributes := m_attributes M, m_changed := False\<rparr>) w1))"
    using s hc by simp
  obtain r w1 where t: "trigger_c c ''change'' [ModelArg m] (rekey c m ?A) = (r, w1)"
    by (cases "trigger_c c ''change'' [ModelArg m] (rekey c m ?A)")
  note pr = c_notified_proj[OF trigger_c_notified[of "rekey c m ?A" c "''change''" "[ModelArg m]"], unfolded t snd_conv]
  have bw: "c_byId (cheap w' c) = c_byId (cheap (rekey c m ?A) c)"
    and mw: "m_id (mheap w' m) = m_id (mheap (rekey c m ?A) m)"
    unfolding assms(12) 1 t using pr(1) pr(5)[of c]
    by (cases r; simp add: upd_m_def)+
  have rk: "c_byId (cheap (rekey c m ?A) c) =
     ((c_byId (cheap ?A c))(ToString (m_id (mheap w m)) := None))(ToString v \<mapsto> m)"
    by (simp add: rekey_def Let_def pp ida)
  have 2: "get w' c (ByValue v) = Some m"
    using assms(7) by (simp add: get_def bw rk)
  have 3: "c_byId (cheap w' c) (ToString (m_id (mheap w m))) = None"
    using assms(11) by (simp add: bw rk)
  have 4: "m_id (mheap w' m) = v"
    using ida by (simp add: mw rekey_def Let_def)
  have cl: "\<And>ev. c_list c ev (rekey c m ?A) = c_list c ev w"
    by (simp add: c_list_def c_calls_def rekey_def Let_def assigned_def upd_m_def)
  have mh: "mheap (rekey c m ?A) = mheap ?A" by (simp add: rekey_def Let_def)
  have jr: "journal (rekey c m ?A) = journal w" by (simp add: rekey_def Let_def assigned_def upd_m_def)
  have 5: "list_all is_observer (c_list c ''change'' w) \<and> list_all is_observer (c_list c ''all'' w) \<longrightarrow>
         fst (set_attrs tn m (Attrs attrs) False w) = Inr True
         \<and> journal w' = journal w
              @ c_published c ''change'' [ModelArg m] (mheap ?A) w"
  proof
    assume o: "list_all is_observer (c_list c ''change'' w) \<and> list_all is_observer (c_list c ''all'' w)"
    have "trigger_c c ''change'' [ModelArg m] (rekey c m ?A) =
       (Inr (), (rekey c m ?A)\<lparr>journal := journal (rekey c m ?A)
          @ sightings (OfCollection c) [ModelArg m] (mheap (rekey c m ?A)) (c_list c ''change'' (rekey c m ?A))
          @ sightings (OfCollection c) [EvName ''change'', ModelArg m] (mheap (rekey c m ?A)) (c_list c ''all'' (rekey c m ?A))\<rparr>)"
      using o by (intro trigger_c_observers) (simp_all add: cl)
    then show "fst (set_attrs tn m (Attrs attrs) False w) = Inr True
         \<and> journal w' = journal w @ c_published c ''change'' [ModelArg m] (mheap ?A) w"
      unfolding assms(12) 1 by (simp add: cl mh jr c_published_def upd_m_def)
  qed
  show ?thesis using 1 2 3 4 5 by blast
qed


lemma sightings_views:
  "views h args = views h' args \<Longrightarrow> sightings this args h l = sightings this args h' l"
  by (induction this args h l rule: sightings.induct) simp_all

lemma added_callbacks: "c_callbacks (cheap (added c m w) x) = c_callbacks (cheap w x)"
  by (simp add: added_def Let_def upd_m_def upd_c_def)

lemma add_silent_callbacks: "c_callbacks (cheap (snd (add c ms True w)) x) = c_callbacks (cheap w x)"
proof (induction ms arbitrary: w)
  case Nil
  then show ?case by simp
next
  case (Cons m ms)
  show ?case
  proof (cases "get w c (ByModel m)")
    case (Some a)
    then show ?thesis by (simp add: add_model_def)
  next
    case None
    then show ?thesis using Cons.IH[of "added c m w"] by (simp add: add_model_added added_callbacks)
  qed
qed

lemma add_silent_journal: "journal (snd (add c ms True w)) = journal w"
proof (induction ms arbitrary: w)
  case Nil
  then show ?case by simp
next
  case (Cons m ms)
  show ?case
  proof (cases "get w c (ByModel m)")
    case (Some a)
    then show ?thesis by (simp add: add_model_def)
  next
    case None
    then show ?thesis using Cons.IH[of "added c m w"]
      by (simp add: add_model_added) (simp add: added_def Let_def upd_m_def upd_c_def)
  qed
qed

lemma refresh_callbacks:
  assumes "list_all is_observer (c_list c ''refresh'' w)" and "list_all is_observer (c_list c ''all'' w)"
  shows "c_callbacks (cheap (snd (refresh tn c models silent w)) c) = c_callbacks (cheap w c)"
proof -
  obtain ms w1 where m: "(case models of Models ms \<Rightarrow> (Inr ms, w)
            | Raws hs \<Rightarrow> materialize tn (c_model (cheap w c)) hs w) = (Inr ms, w1)"
     and c1: "cheap w1 = cheap w"
  proof (cases models)
    case (Models ms)
    then show ?thesis using that[of ms w] by simp
  next
    case (Raws hs)
    obtain ns h where h: "materialize tn (c_model (cheap w c)) hs w =
     (Inr ns, w\<lparr>mheap := h, idCounter := idCounter w + length hs\<rparr>)"
      using materialize_frame by blast
    show ?thesis using Raws h
      by (intro that[of ns "w\<lparr>mheap := h, idCounter := idCounter w + length hs\<rparr>"]) auto
  qed
  let ?w2 = "snd (add c ms True (initialize c w1))"
  have a: "c_callbacks (cheap ?w2 c) = c_callbacks (cheap w c)"
    by (simp add: add_silent_callbacks initialize_def upd_c_def c1)
  then have l: "\<And>ev. c_list c ev ?w2 = c_list c ev w" by (simp add: c_list_def c_calls_def)
  have t: "cheap (snd (trigger_c c ''refresh'' [CollectionArg c] ?w2)) = cheap ?w2"
    using assms by (subst trigger_c_observers) (simp_all add: l)
  have r: "snd (refresh tn c models silent w) = ?w2
     \<or> snd (refresh tn c models silent w) = snd (trigger_c c ''refresh'' [CollectionArg c] ?w2)"
    unfolding refresh_def m by (auto split: prod.splits sum.splits)
  show ?thesis using r a t by auto
qed

subsection \<open>How get resolves a model\<close>

text \<open>
  \<open>get\<close> looks a model that has no id up under the string its \<open>toString()\<close> gives,
  never under its cid; \<open>_add\<close> refuses exactly the models \<open>get\<close> finds, before it
  changes anything, and \<open>_remove\<close> does nothing for what \<open>get\<close> does not find.
\<close>

lemma get_model_without_id:
  "m_id (mheap w m) = Undefined \<Longrightarrow> get w c (ByModel m) = c_byId (cheap w c) ''Model undefined''"
  "m_id (mheap w m) = Null \<Longrightarrow> get w c (ByModel m) = c_byId (cheap w c) ''Model null''"
  by (simp_all add: get_def)

lemma add_model_refuses_found:
  "get w c (ByModel m) = Some a \<Longrightarrow>
   add_model c m silent w = (Inl (DuplicateError (m_id (mheap w a))), w)"
  by (simp add: add_model_def)

lemma remove_model_unresolved:
  "get w c r = None \<Longrightarrow> remove_model c r silent w = (Inr None, w)"
  by (simp add: remove_model_def)

subsection \<open>Inserting a model that has no id into a sorted collection\<close>

lemma new_model_cheap: "cheap (snd (new_model tn validate attrs w)) = cheap w"
  using new_model_frame[of tn validate attrs w] by auto

lemma add_model_byId:
  "get w c (ByModel m) = None \<Longrightarrow>
   c_byId (cheap (snd (add_model c m silent w)) c) = (c_byId (cheap w c))(ToString (m_id (mheap w m)) \<mapsto> m)"
  by (simp add: snd_add_model trigger_c_proj) (simp add: added_def Let_def upd_m_def upd_c_def)

lemma add_model_m_id: "m_id (mheap (snd (add_model c m silent w)) r) = m_id (mheap w r)"
proof (cases "get w c (ByModel m)")
  case (Some a)
  then show ?thesis by (simp add: add_model_def)
next
  case None
  then show ?thesis
    by (simp add: snd_add_model trigger_c_proj) (simp add: added_def Let_def upd_m_def upd_c_def)
qed

lemma insert_without_id:
  assumes "c_comparator (cheap w c) = Some cmp"
    and "sorted (map (sort_key_of w cmp) (c_models (cheap w c)))"
    and "m_id (mheap w m) = Undefined" and "c_byId (cheap w c) ''Model undefined'' = None"
    and "w' = snd (add_model c m silent w)"
  shows "c_comparator (cheap w' c) = Some cmp"
    and "sort_key_of w' cmp = sort_key_of w cmp"
    and "c_models (cheap w' c) =
      takeWhile (\<lambda>x. sort_key_of w cmp x < sort_key_of w cmp m) (c_models (cheap w c))
      @ m # dropWhile (\<lambda>x. sort_key_of w cmp x < sort_key_of w cmp m) (c_models (cheap w c))"
    and "sorted (map (sort_key_of w' cmp) (c_models (cheap w' c)))"
    and "c_byId (cheap w' c) ''Model undefined'' = None"
    and "\<And>r. m_id (mheap w' r) = m_id (mheap w r)"
proof -
  have g: "get w c (ByModel m) = None" using assms(3,4) by (simp add: get_model_without_id)
  note k = add_model_same_keys[where w=w and c=c and m=m and silent=silent, folded assms(5)]
  show c: "c_comparator (cheap w' c) = Some cmp" using k assms(1) by (simp add: same_keys_def)
  show s: "sort_key_of w' cmp = sort_key_of w cmp"
    using k by (intro sort_key_of_cong) (simp add: same_keys_def)
  show m: "c_models (cheap w' c) =
      takeWhile (\<lambda>x. sort_key_of w cmp x < sort_key_of w cmp m) (c_models (cheap w c))
      @ m # dropWhile (\<lambda>x. sort_key_of w cmp x < sort_key_of w cmp m) (c_models (cheap w c))"
    unfolding assms(5) by (rule add_model_order[OF assms(1) g assms(2)])
  show "sorted (map (sort_key_of w' cmp) (c_models (cheap w' c)))"
    unfolding s m by (rule sorted_insert_at[OF assms(2)])
  show "c_byId (cheap w' c) ''Model undefined'' = None"
    unfolding assms(5) using assms(3,4) by (simp add: add_model_byId[OF g])
  show "\<And>r. m_id (mheap w' r) = m_id (mheap w r)"
    unfolding assms(5) by (rule add_model_m_id)
qed

subsection \<open>Where the code departs from what it documents\<close>

text \<open>
  Claim C1. The flag \<open>_changed\<close> is documented as telling whether the model has been
  changed since the last \<open>change\<close> event, so that a clear flag means the attributes
  equal the snapshot. A silent \<open>set\<close> breaks this: on a model created without attributes,
  \<open>set({a: 1}, {silent: true})\<close> returns the model, \<open>hasChanged()\<close> is false, and the
  attributes are \<open>{a: 1}\<close> while the snapshot is still empty.
\<close>

theorem silent_set_leaves_flag_clear:
  "fst (set_attrs ToNumber_decimal 0 (Attrs [(''a'', Num 1)]) True (one_model [])) = Inr True
   \<and> hasChanged ToNumber_decimal
        (mheap (snd (set_attrs ToNumber_decimal 0 (Attrs [(''a'', Num 1)]) True (one_model []))) 0) None = False
   \<and> m_attributes (mheap (snd (set_attrs ToNumber_decimal 0 (Attrs [(''a'', Num 1)]) True (one_model []))) 0)
        = [(''a'', Num 1)]
   \<and> m_previousAttributes (mheap (snd (set_attrs ToNumber_decimal 0 (Attrs [(''a'', Num 1)]) True (one_model []))) 0)
        = []"
  by code_simp

text \<open>
  Claim C3. \<open>_add\<close> is to refuse a model that is already in the collection, by id or by
  cid. Its test is \<open>get(model)\<close>, which finds no model that has no id: the collection
  that holds the model at address 0, indexed under its cid, takes the same model a second
  time, and then holds it twice with length 2.
\<close>

theorem add_same_model_twice:
  "c_models (cheap member_without_id 0) = [0]
   \<and> c_byCid (cheap member_without_id 0) (m_cid (mheap member_without_id 0)) = Some 0
   \<and> fst (add_model 0 0 False member_without_id) = Inr 0
   \<and> c_models (cheap (snd (add_model 0 0 False member_without_id)) 0) = [0, 0]
   \<and> c_length (cheap (snd (add_model 0 0 False member_without_id)) 0) = 2"
  by code_simp

text \<open>
  Claim C6. \<open>trigger\<close> is to call every callback bound to the event. The loop reads the
  length once and indexes the live array, so when the first of two subscribers unbinds
  itself the array shrinks under the loop: the second index is past the end, \<open>trigger\<close>
  throws a TypeError, and the observer that is still bound has not been called.
\<close>

theorem trigger_after_self_unbind:
  "fst (trigger_m ToNumber_decimal 0 ''e'' [] hub_world) = Inl TypeError
   \<and> journal (snd (trigger_m ToNumber_decimal 0 ''e'' [] hub_world)) = []
   \<and> m_list 0 ''e'' hub_world = [User (RemoveSelf 1 ''e''), User (Observer 2)]
   \<and> m_list 0 ''e'' (snd (trigger_m ToNumber_decimal 0 ''e'' [] hub_world)) = [User (Observer 2)]"
  by code_simp

text \<open>
  Claim C8. \<open>_remove\<close> is to take a member out of the collection whatever names it. It
  resolves its argument with \<open>get\<close>, which finds no model that has no id: asked to remove
  its only member, the model at address 0, the collection returns \<open>null\<close> and keeps the
  model, its length and the model's back-reference.
\<close>

theorem remove_member_without_id:
  "c_models (cheap member_without_id 0) = [0]
   \<and> m_id (mheap member_without_id 0) = Undefined
   \<and> fst (remove_model 0 (ByModel 0) False member_without_id) = Inr None
   \<and> c_models (cheap (snd (remove_model 0 (ByModel 0) False member_without_id)) 0) = [0]
   \<and> c_length (cheap (snd (remove_model 0 (ByModel 0) False member_without_id)) 0) = 1
   \<and> m_collection (mheap (snd (remove_model 0 (ByModel 0) False member_without_id)) 0) = Some 0"
  by code_simp

subsection \<open>Validation\<close>

text \<open>
  Claim C2, as the code has it. \<open>set\<close> tests the hook's answer for truthiness. When the
  model has a \<open>validate\<close> hook and its answer for the attributes of the patch is truthy,
  \<open>set\<close> does nothing but publish \<open>error\<close> once with the model and that answer: its
  result is \<open>false\<close> unless a subscriber throws, and the attributes, the id, the flag
  and the snapshot of the model are as before. With observers as subscribers the whole
  world is as before but for the journal, which gains exactly the observations of that
  one event.
\<close>

theorem rejected_write_changes_nothing:
  assumes "p \<noteq> NoAttrs" and "m_validate (mheap w m) = Some validate"
    and "err = validate (attrs_of w p)" and "truthy err"
  shows "set_attrs tn m p silent w =
           (case trigger_m tn m ''error'' [ModelArg m, ValArg err] w of
              (Inl e, w1) \<Rightarrow> (Inl e, w1)
            | (Inr u, w1) \<Rightarrow> (Inr False, w1))
    \<and> m_attributes (mheap (snd (set_attrs tn m p silent w)) m) = m_attributes (mheap w m)
    \<and> m_id (mheap (snd (set_attrs tn m p silent w)) m) = m_id (mheap w m)
    \<and> m_changed (mheap (snd (set_attrs tn m p silent w)) m) = m_changed (mheap w m)
    \<and> m_previousAttributes (mheap (snd (set_attrs tn m p silent w)) m) = m_previousAttributes (mheap w m)
    \<and> (list_all observing (m_list m ''error'' w) \<and> list_all observing (m_list m ''all'' w) \<longrightarrow>
          set_attrs tn m p silent w =
            (Inr False, w\<lparr>journal := journal w @ published m ''error'' [ModelArg m, ValArg err] (mheap w) w\<rparr>))"
proof -
  have s: "set_attrs tn m p silent w =
           (case trigger_m tn m ''error'' [ModelArg m, ValArg err] w of
              (Inl e, w1) \<Rightarrow> (Inl e, w1)
            | (Inr u, w1) \<Rightarrow> (Inr False, w1))"
    using assms by (cases p) (simp_all add: set_attrs_def Let_def)
  obtain r w1 where t: "trigger_m tn m ''error'' [ModelArg m, ValArg err] w = (r, w1)"
    by (cases "trigger_m tn m ''error'' [ModelArg m, ValArg err] w")
  have n: "notified w w1" using trigger_m_notified[of w tn m "''error''" "[ModelArg m, ValArg err]"] t by simp
  have w1: "snd (set_attrs tn m p silent w) = w1" unfolding s t by (cases r) simp_all
  have d: "m_data (mheap w1 m) = m_data (mheap w m)" using n by (simp add: notified_def)
  have o: "list_all observing (m_list m ''error'' w) \<and> list_all observing (m_list m ''all'' w) \<longrightarrow>
          set_attrs tn m p silent w =
            (Inr False, w\<lparr>journal := journal w @ published m ''error'' [ModelArg m, ValArg err] (mheap w) w\<rparr>)"
    unfolding s by (simp add: trigger_m_observers published_def)
  show ?thesis using s d o unfolding w1 by (simp add: m_data_def)
qed

text \<open>
  The hook that rejects a negative age with the error \<open>'negative'\<close>, on a model of age
  30 observed on \<open>error\<close>: \<open>set({age: -1})\<close> is \<open>false\<close>, the observer is called once
  with the model and the error, and nothing else changes.
\<close>

theorem rejected_write_changes_nothing_witness:
  "set_attrs ToNumber_decimal 0 (Attrs [(''age'', Num (- 1))]) False (validated_model (Str ''negative'')) =
     (Inr False, (validated_model (Str ''negative''))\<lparr>journal :=
        [Saw 1 (OfModel 0) [ModelArg 0, ValArg (Str ''negative'')]
           [([(''age'', Num 30)], [(''age'', Num 30)], False)]]\<rparr>)"
proof -
  let ?w = "validated_model (Str ''negative'')"
  have l: "m_list 0 ''error'' ?w = [User (Observer 1)]" "m_list 0 ''all'' ?w = []"
    "m_attributes (mheap ?w 0) = [(''age'', Num 30)]" "m_previousAttributes (mheap ?w 0) = [(''age'', Num 30)]"
    "m_changed (mheap ?w 0) = False" "journal ?w = []"
    by code_simp+
  have v: "m_validate (mheap ?w 0) = Some (age_check (Str ''negative''))"
    by (simp add: validated_model_def m_bind_def upd_m_def new_model_def Let_def set_attrs_def
        blank_world_def blank_model_def attrs_of_def age_check_def lookup_def isEqual_def split: prod.splits sum.splits)
  have e: "Str ''negative'' = age_check (Str ''negative'') (attrs_of ?w (Attrs [(''age'', Num (- 1))]))"
    by (simp add: attrs_of_def age_check_def lookup_def)
  have o: "list_all observing (m_list 0 ''error'' ?w)" "list_all observing (m_list 0 ''all'' ?w)"
    by (simp_all add: l)
  have t: "truthy (Str ''negative'')" "Attrs [(''age'', Num (- 1))] \<noteq> NoAttrs" by simp_all
  have "set_attrs ToNumber_decimal 0 (Attrs [(''age'', Num (- 1))]) False ?w =
      (Inr False, ?w\<lparr>journal := journal ?w
         @ published 0 ''error'' [ModelArg 0, ValArg (Str ''negative'')] (mheap ?w) ?w\<rparr>)"
    using rejected_write_changes_nothing[where tn=ToNumber_decimal and silent=False, OF t(2) v e t(1)] o
    by blast
  then show ?thesis by (simp add: l published_def)
qed

text \<open>
  Claim C2 as stated speaks of a hook that returns a non-null error. The same hook
  returning the empty string, which is not null, for the negative age does not reject:
  \<open>set({age: -1})\<close> returns the model, the age is now \<open>-1\<close>, and no \<open>error\<close> event
  is observed.
\<close>

theorem falsy_error_is_not_a_rejection:
  "age_check (Str []) [(''age'', Num (- 1))] = Str []
   \<and> fst (set_attrs ToNumber_decimal 0 (Attrs [(''age'', Num (- 1))]) False (validated_model (Str []))) = Inr True
   \<and> m_attributes (mheap (snd (set_attrs ToNumber_decimal 0 (Attrs [(''age'', Num (- 1))]) False (validated_model (Str [])))) 0)
        = [(''age'', Num (- 1))]
   \<and> journal (snd (set_attrs ToNumber_decimal 0 (Attrs [(''age'', Num (- 1))]) False (validated_model (Str [])))) = []"
  by code_simp

subsection \<open>The commit\<close>

text \<open>
  Claim C5, as the code has it. \<open>change()\<close> publishes first and commits afterwards.
  Every observation made during \<open>change()\<close>, by whatever subscriber of the model or of
  its collection, shows each model among its arguments as it was when \<open>change()\<close> was
  entered: for the model itself the attributes, the old snapshot and the flag as they
  were. Only when the event has been published without an exception is the snapshot
  set to the attributes and the flag cleared. With observers as subscribers, the journal
  gains exactly the observations of the one \<open>change\<close> event, taken on the heap as it
  was.
\<close>

theorem change_subscribers_see_uncommitted_state:
  "(\<exists>ns. journal (snd (change tn m w)) = journal w @ ns
        \<and> list_all (\<lambda>n. o_views n = views (mheap w) (o_args n)) ns)
   \<and> views (mheap w) [ModelArg m]
       = [(m_attributes (mheap w m), m_previousAttributes (mheap w m), m_changed (mheap w m))]
   \<and> (fst (change tn m w) = Inr () \<longrightarrow>
        m_attributes (mheap (snd (change tn m w)) m) = m_attributes (mheap w m)
        \<and> m_previousAttributes (mheap (snd (change tn m w)) m) = m_attributes (mheap w m)
        \<and> m_changed (mheap (snd (change tn m w)) m) = False)
   \<and> (list_all observing (m_list m ''change'' w) \<and> list_all observing (m_list m ''all'' w) \<longrightarrow>
        fst (change tn m w) = Inr ()
        \<and> journal (snd (change tn m w)) = journal w @ published m ''change'' [ModelArg m] (mheap w) w)"
proof -
  obtain r w1 where t: "trigger_m tn m ''change'' [ModelArg m] w = (r, w1)"
    by (cases "trigger_m tn m ''change'' [ModelArg m] w")
  have n: "notified w w1" using trigger_m_notified[of w tn m "''change''" "[ModelArg m]"] t by simp
  have j: "journal (snd (change tn m w)) = journal w1"
    using t by (cases r) (simp_all add: change_def upd_m_def)
  have 1: "\<exists>ns. journal (snd (change tn m w)) = journal w @ ns
        \<and> list_all (\<lambda>n. o_views n = views (mheap w) (o_args n)) ns"
    using n j by (simp add: notified_def)
  have d: "m_data (mheap w1 m) = m_data (mheap w m)" using n by (simp add: notified_def)
  have 3: "fst (change tn m w) = Inr () \<longrightarrow>
        m_attributes (mheap (snd (change tn m w)) m) = m_attributes (mheap w m)
        \<and> m_previousAttributes (mheap (snd (change tn m w)) m) = m_attributes (mheap w m)
        \<and> m_changed (mheap (snd (change tn m w)) m) = False"
    using t d by (cases r) (simp_all add: change_def upd_m_def m_data_def)
  have 4: "list_all observing (m_list m ''change'' w) \<and> list_all observing (m_list m ''all'' w) \<longrightarrow>
        fst (change tn m w) = Inr ()
        \<and> journal (snd (change tn m w)) = journal w @ published m ''change'' [ModelArg m] (mheap w) w"
    by (simp add: change_def trigger_m_observers upd_m_def published_def)
  show ?thesis using 1 3 4 by simp
qed

text \<open>
  A model observed on \<open>change\<close>, with the attribute \<open>a\<close> written and the flag raised:
  the observer sees the new attributes, the empty old snapshot and the raised flag; the
  snapshot is the new attributes once \<open>change()\<close> has returned.
\<close>

theorem change_subscribers_see_uncommitted_state_witness:
  "journal (snd (change ToNumber_decimal 0
      (upd_m 0 (\<lambda>M. M\<lparr>m_attributes := [(''a'', Num 1)], m_changed := True\<rparr>) observed_model)))
     = [Saw 1 (OfModel 0) [ModelArg 0] [([(''a'', Num 1)], [], True)]]
   \<and> m_previousAttributes (mheap (snd (change ToNumber_decimal 0
      (upd_m 0 (\<lambda>M. M\<lparr>m_attributes := [(''a'', Num 1)], m_changed := True\<rparr>) observed_model))) 0) = [(''a'', Num 1)]"
proof -
  let ?w = "upd_m 0 (\<lambda>M. M\<lparr>m_attributes := [(''a'', Num 1)], m_changed := True\<rparr>) observed_model"
  have l: "m_list 0 ''change'' ?w = [User (Observer 1)]" "m_list 0 ''all'' ?w = []"
    "m_attributes (mheap ?w 0) = [(''a'', Num 1)]" "m_previousAttributes (mheap ?w 0) = []"
    "m_changed (mheap ?w 0) = True" "journal ?w = []"
    by code_simp+
  show ?thesis
    using change_subscribers_see_uncommitted_state[of ToNumber_decimal 0 ?w]
    by (simp add: l published_def)
qed

text \<open>
  Claim C5 as stated has the state committed before the subscribers run. On a model
  without attributes observed on \<open>change\<close>, \<open>set({a: 1})\<close> calls the observer once, and
  what it reads is the attributes \<open>{a: 1}\<close>, the snapshot \<open>{}\<close> and \<open>hasChanged()\<close>
  true.
\<close>

theorem change_handler_sees_old_snapshot:
  "journal (snd (set_attrs ToNumber_decimal 0 (Attrs [(''a'', Num 1)]) False observed_model))
     = [Saw 1 (OfModel 0) [ModelArg 0] [([(''a'', Num 1)], [], True)]]"
  by code_simp

subsection \<open>Removing an attribute\<close>

text \<open>
  Claim C9. For every model whose subscribers of \<open>change:<name>\<close>, \<open>change\<close> and \<open>all\<close>
  are observers, and every attribute name, present or not, \<open>unset(name)\<close> returns the
  old value and publishes \<open>change:<name>\<close> and then \<open>change\<close>, both with the model; the
  observers see the attribute gone and the flag raised; afterwards the snapshot equals
  the attributes and the flag is clear; and a second \<open>unset(name)\<close> publishes the same
  events again.
\<close>

theorem unset_publishes_whether_present_or_not:
  assumes "list_all observing (m_list m (''change:'' @ attr) w)"
    and "list_all observing (m_list m ''change'' w)"
    and "list_all observing (m_list m ''all'' w)"
    and "h = mheap (upd_m m (\<lambda>M. M\<lparr>m_attributes := delete_key attr (m_attributes M), m_changed := True\<rparr>) w)"
    and "w1 = snd (unset tn m attr False w)"
    and "w2 = snd (unset tn m attr False w1)"
  shows "fst (unset tn m attr False w) = Inr (lookup (m_attributes (mheap w m)) attr)
    \<and> journal w1 = journal w @ published m (''change:'' @ attr) [ModelArg m] h w
                              @ published m ''change'' [ModelArg m] h w
    \<and> views h [ModelArg m]
         = [(delete_key attr (m_attributes (mheap w m)), m_previousAttributes (mheap w m), True)]
    \<and> m_attributes (mheap w1 m) = delete_key attr (m_attributes (mheap w m))
    \<and> m_previousAttributes (mheap w1 m) = m_attributes (mheap w1 m)
    \<and> m_changed (mheap w1 m) = False
    \<and> map event_of (drop (length (journal w1)) (journal w2))
         = map event_of (drop (length (journal w)) (journal w1))"
proof -
  note u1 = unset_observed[OF assms(1-3), of tn]
  have l1: "\<And>ev. m_list m ev w1 = m_list m ev w"
    unfolding assms(5) u1 by (simp add: m_list_upd_m)
  have o1: "list_all observing (m_list m (''change:'' @ attr) w1)"
    "list_all observing (m_list m ''change'' w1)" "list_all observing (m_list m ''all'' w1)"
    using assms(1-3) by (simp_all only: l1)
  note u2 = unset_observed[OF o1, of tn]
  have j1: "journal w1 = journal w @ published m (''change:'' @ attr) [ModelArg m] h w
                              @ published m ''change'' [ModelArg m] h w"
    unfolding assms(5) u1 assms(4) by (simp add: upd_m_def published_def)
  have j2: "journal w2 = journal w1 @ published m (''change:'' @ attr) [ModelArg m]
        (mheap (upd_m m (\<lambda>M. M\<lparr>m_attributes := delete_key attr (m_attributes M), m_changed := True\<rparr>) w1)) w1
        @ published m ''change'' [ModelArg m]
        (mheap (upd_m m (\<lambda>M. M\<lparr>m_attributes := delete_key attr (m_attributes M), m_changed := True\<rparr>) w1)) w1"
    unfolding assms(6) u2 by (simp add: upd_m_def published_def)
  have e: "\<And>ev args h0. map event_of (published m ev args h0 w1) = map event_of (published m ev args h w)"
    unfolding published_def l1 map_append by (metis event_of_sightings)
  have 7: "map event_of (drop (length (journal w1)) (journal w2))
         = map event_of (drop (length (journal w)) (journal w1))"
    unfolding j2 unfolding j1 by (simp add: e)
  have 1: "fst (unset tn m attr False w) = Inr (lookup (m_attributes (mheap w m)) attr)"
    by (simp add: u1)
  have 3: "views h [ModelArg m]
         = [(delete_key attr (m_attributes (mheap w m)), m_previousAttributes (mheap w m), True)]"
    by (simp add: assms(4) upd_m_def)
  have 4: "m_attributes (mheap w1 m) = delete_key attr (m_attributes (mheap w m))"
    "m_previousAttributes (mheap w1 m) = m_attributes (mheap w1 m)" "m_changed (mheap w1 m) = False"
    unfolding assms(5) u1 by (simp_all add: upd_m_def)
  show ?thesis using 1 j1 3 4 7 by simp
qed

text \<open>
  A model without attributes, observed on \<open>change:a\<close> and on \<open>change\<close>: \<open>unset('a')\<close>
  calls both observers although there is no \<open>a\<close>, and a second call does so again.
\<close>

theorem unset_publishes_witness:
  "journal (snd (unset ToNumber_decimal 0 ''a'' False watched_model))
     = [Saw 2 (OfModel 0) [ModelArg 0] [([], [], True)], Saw 1 (OfModel 0) [ModelArg 0] [([], [], True)]]
   \<and> map event_of (drop 2 (journal (snd (unset ToNumber_decimal 0 ''a'' False
        (snd (unset ToNumber_decimal 0 ''a'' False watched_model))))))
     = [(2, OfModel 0, [ModelArg 0]), (1, OfModel 0, [ModelArg 0])]"
proof -
  have l: "m_list 0 ''change:a'' watched_model = [User (Observer 2)]"
    "m_list 0 ''change'' watched_model = [User (Observer 1)]" "m_list 0 ''all'' watched_model = []"
    "m_attributes (mheap watched_model 0) = []" "m_previousAttributes (mheap watched_model 0) = []"
    "journal watched_model = []"
    by code_simp+
  have o: "list_all observing (m_list 0 (''change:'' @ ''a'') watched_model)"
    "list_all observing (m_list 0 ''change'' watched_model)"
    "list_all observing (m_list 0 ''all'' watched_model)"
    by (simp_all add: l)
  note u = unset_publishes_whether_present_or_not[where tn=ToNumber_decimal, OF o refl refl refl]
  have j: "journal (snd (unset ToNumber_decimal 0 ''a'' False watched_model))
     = [Saw 2 (OfModel 0) [ModelArg 0] [([], [], True)], Saw 1 (OfModel 0) [ModelArg 0] [([], [], True)]]"
    using u by (simp add: l published_def upd_m_def delete_key_def)
  have "map event_of (drop (length (journal (snd (unset ToNumber_decimal 0 ''a'' False watched_model))))
          (journal (snd (unset ToNumber_decimal 0 ''a'' False
             (snd (unset ToNumber_decimal 0 ''a'' False watched_model))))))
        = map event_of (drop (length (journal watched_model))
            (journal (snd (unset ToNumber_decimal 0 ''a'' False watched_model))))"
    using u by blast
  then show ?thesis unfolding j by (simp add: l event_of_def numeral_2_eq_2)
qed

subsection \<open>The sort order\<close>

text \<open>
  Claim C4, as the code has it. For every collection with a comparator whose keys are
  linearly ordered by \<open><\<close> (all numbers, or all strings) and whose models are in
  order, the models are in order after any sequence of \<open>_add\<close>, \<open>_remove\<close> and \<open>sort\<close>
  calls, returning or throwing; and \<open>_add\<close> of a model that \<open>get\<close> does not find puts it
  at the position \<open>_.sortedIndex\<close> gives, the leftmost one that keeps the order: after
  every member of a smaller key and before every member of an equal or greater key.
\<close>

theorem sorted_after_every_call_and_ties_first:
  assumes "c_comparator (cheap w c) = Some cmp"
    and "sorted (map (sort_key_of w cmp) (c_models (cheap w c)))"
  shows "sorted (map (sort_key_of (run c ops w) cmp) (c_models (cheap (run c ops w) c)))
    \<and> (get w c (ByModel m) = None \<longrightarrow>
         c_models (cheap (snd (add_model c m silent w)) c) =
           takeWhile (\<lambda>x. sort_key_of w cmp x < sort_key_of w cmp m) (c_models (cheap w c))
           @ m # dropWhile (\<lambda>x. sort_key_of w cmp x < sort_key_of w cmp m) (c_models (cheap w c)))"
  using run_sorted[OF assms, of ops] add_model_order[OF assms(1) _ assms(2), of m silent] by simp

text \<open>
  The collection sorted by rank that holds the models of ranks 1, 2 and 3, in this
  order: three more calls, an insertion, a sort and a removal, leave it in order, and
  the fourth model, of rank 2, is inserted after the model of rank 1 and before the
  model of rank 2 that was there.
\<close>

theorem sorted_after_every_call_witness:
  "c_models (cheap three_inserted 0) = [1, 2, 0]
   \<and> map (sort_key_of three_inserted by_rank) [1, 2, 0, 3] = [1, 2, 3, 2]
   \<and> sorted (map (sort_key_of (run 0 [InsertOne 3 False, Sort False,
        RemoveOne (ByValue (Str ''undefined'')) False] three_inserted) by_rank)
      (c_models (cheap (run 0 [InsertOne 3 False, Sort False,
        RemoveOne (ByValue (Str ''undefined'')) False] three_inserted) 0)))
   \<and> c_models (cheap (snd (add_model 0 3 False three_inserted)) 0) = [1, 3, 2, 0]"
proof -
  define w1 where "w1 = snd (add_model 0 0 False four_ranked)"
  define w2 where "w2 = snd (add_model 0 1 False w1)"
  define w3 where "w3 = snd (add_model 0 2 False w2)"
  have t: "three_inserted = w3" by (simp add: three_inserted_def w1_def w2_def w3_def)
  have c0: "c_comparator (cheap four_ranked 0) = Some by_rank"
    "c_models (cheap four_ranked 0) = []" "c_byId (cheap four_ranked 0) ''Model undefined'' = None"
    by (simp_all add: four_ranked_def new_model_cheap blank_world_def blank_collection_def)
  have i0: "m_id (mheap four_ranked 0) = Undefined" "m_id (mheap four_ranked 1) = Undefined"
    "m_id (mheap four_ranked 2) = Undefined" "m_id (mheap four_ranked 3) = Undefined"
    by code_simp+
  have k0: "sort_key_of four_ranked by_rank 0 = 3" "sort_key_of four_ranked by_rank 1 = 1"
    "sort_key_of four_ranked by_rank 2 = 2" "sort_key_of four_ranked by_rank 3 = 2"
    by code_simp+
  have s0: "sorted (map (sort_key_of four_ranked by_rank) (c_models (cheap four_ranked 0)))"
    by (simp add: c0)
  have k1: "sort_key_of four_ranked by_rank (Suc 0) = 1" using k0(2) by simp
  note a1 = insert_without_id[OF c0(1) s0 i0(1) c0(3) w1_def]
  have m1: "c_models (cheap w1 0) = [0]" using a1(3) by (simp add: c0)
  have i1: "m_id (mheap w1 1) = Undefined" using a1(6)[of 1] i0(2) by simp
  note a2 = insert_without_id[OF a1(1) a1(4) i1 a1(5) w2_def]
  have m2: "c_models (cheap w2 0) = [1, 0]"
    using a2(3) by (simp add: m1 a1(2) k0 k1)
  have i2: "m_id (mheap w2 2) = Undefined" using a2(6)[of 2] a1(6)[of 2] i0(3) by simp
  note a3 = insert_without_id[OF a2(1) a2(4) i2 a2(5) w3_def]
  have m3: "c_models (cheap w3 0) = [1, 2, 0]"
    using a3(3) by (simp add: m2 a2(2) a1(2) k0 k1)
  have c3: "c_comparator (cheap w3 0) = Some by_rank" by (rule a3(1))
  have k3: "sort_key_of w3 by_rank = sort_key_of four_ranked by_rank"
    by (simp add: a3(2) a2(2) a1(2))
  have s3: "sorted (map (sort_key_of w3 by_rank) (c_models (cheap w3 0)))" by (rule a3(4))
  have b3: "c_byId (cheap w3 0) ''Model undefined'' = None" by (rule a3(5))
  have i3: "m_id (mheap w3 3) = Undefined"
    using a3(6)[of 3] a2(6)[of 3] a1(6)[of 3] i0(4) by simp
  have g3: "get w3 0 (ByModel 3) = None" using i3 b3 by (simp add: get_model_without_id)
  note th = sorted_after_every_call_and_ties_first[OF c3 s3, where m=3 and silent=False
      and ops="[InsertOne 3 False, Sort False, RemoveOne (ByValue (Str ''undefined'')) False]"]
  have 1: "sorted (map (sort_key_of (run 0 [InsertOne 3 False, Sort False,
        RemoveOne (ByValue (Str ''undefined'')) False] w3) by_rank)
      (c_models (cheap (run 0 [InsertOne 3 False, Sort False,
        RemoveOne (ByValue (Str ''undefined'')) False] w3) 0)))"
    using th by blast
  have "c_models (cheap (snd (add_model 0 3 False w3)) 0) =
           takeWhile (\<lambda>x. sort_key_of w3 by_rank x < sort_key_of w3 by_rank 3) (c_models (cheap w3 0))
           @ 3 # dropWhile (\<lambda>x. sort_key_of w3 by_rank x < sort_key_of w3 by_rank 3) (c_models (cheap w3 0))"
    using th g3 by blast
  then have 2: "c_models (cheap (snd (add_model 0 3 False w3)) 0) = [1, 3, 2, 0]"
    by (simp add: m3 k3 k0 k1)
  show ?thesis unfolding t using 1 2 m3 by (simp add: k3 k0 k1)
qed

text \<open>
  Claim C4 as stated places a model after the members it ties with. Two models of rank
  1, created first and second and inserted in that order, end up second and first.
\<close>

theorem equal_rank_inserted_first:
  "c_models (cheap (snd (add_model 0 1 False (snd (add_model 0 0 False two_ranked)))) 0) = [1, 0]
   \<and> by_rank (m_attributes (mheap two_ranked 0)) = by_rank (m_attributes (mheap two_ranked 1))"
  by code_simp

subsection \<open>Re-keying\<close>




subsection \<open>Former members\<close>

text \<open>
  Claim C10. Let \<open>e\<close> be attached to the collection \<open>c\<close> as \<open>_add\<close> leaves a model:
  its back-reference is \<open>c\<close> and the handler of \<open>c\<close> is its subscriber of \<open>all\<close> (and
  it has no subscribers of \<open>change\<close> and \<open>error\<close> of its own). Let \<open>c\<close> be refreshed
  with a list that does not hold \<open>e\<close>: models other than \<open>e\<close>, or plain hashes, \<open>e\<close>
  having been created before. Then \<open>e\<close> is no member of \<open>c\<close> any more, but it still has
  the back-reference and the subscription: a \<open>change\<close> event of \<open>e\<close> is still handled
  by \<open>c\<close>, which re-keys its index when the id changed and publishes \<open>change\<close> with
  \<open>e\<close>, and an \<open>error\<close> event of \<open>e\<close> is published by \<open>c\<close> as \<open>error\<close>. So a \<open>set\<close> on
  \<open>e\<close> that changes an attribute ends in the collection's \<open>change\<close>, a \<open>set\<close> that
  validation rejects ends in the collection's \<open>error\<close>, and a \<open>set\<close> that gives \<open>e\<close> a
  new id makes \<open>get\<close> of that id answer \<open>e\<close>, observers of \<open>c\<close> seeing the \<open>change\<close>.
\<close>

theorem refresh_leaves_former_members_attached:
  assumes "m_collection (mheap w e) = Some c"
    and "m_list e ''all'' w = [BoundOnModelEvent c]"
    and "m_list e ''change'' w = []" and "m_list e ''error'' w = []"
    and "case models of Models ms \<Rightarrow> e \<notin> set ms | Raws hs \<Rightarrow> e < idCounter w"
    and "w' = snd (refresh tn c models silent w)"
    and "w'' = snd (set_attrs tn e (Attrs attrs) False w')"
  shows "e \<notin> set (c_models (cheap w' c))
    \<and> m_collection (mheap w' e) = Some c
    \<and> m_list e ''all'' w' = [BoundOnModelEvent c]
    \<and> trigger_m tn e ''change'' [ModelArg e] w' =
        trigger_c c ''change'' [ModelArg e]
          (if hasChanged tn (mheap w' e) (Some ''id'') then rekey c e w' else w')
    \<and> trigger_m tn e ''error'' [ModelArg e, ValArg err] w' =
        trigger_c c ''error'' [ModelArg e, ValArg err] w'
    \<and> (list_all (\<lambda>(k, v). m_list e (''change:'' @ k) w = []) attrs
        \<and> \<not> truthy (case m_validate (mheap w e) of None \<Rightarrow> Undefined | Some validate \<Rightarrow> validate attrs)
        \<and> differs (m_attributes (mheap w e)) attrs \<longrightarrow>
        set_attrs tn e (Attrs attrs) False w' =
          (case trigger_c c ''change'' [ModelArg e]
                  (if hasChanged tn (mheap (assigned e attrs w') e) (Some ''id'')
                   then rekey c e (assigned e attrs w') else assigned e attrs w') of
             (Inl x, w1) \<Rightarrow> (Inl x, w1)
           | (Inr u, w1) \<Rightarrow>
               (Inr True, upd_m e (\<lambda>M. M\<lparr>m_previousAttributes := m_attributes M, m_changed := False\<rparr>) w1)))
    \<and> (\<forall>validate. m_validate (mheap w e) = Some validate \<and> truthy (validate attrs) \<longrightarrow>
        set_attrs tn e (Attrs attrs) quiet w' =
          (case trigger_c c ''error'' [ModelArg e, ValArg (validate attrs)] w' of
             (Inl x, w1) \<Rightarrow> (Inl x, w1)
           | (Inr u, w1) \<Rightarrow> (Inr False, w1)))
    \<and> (list_all (\<lambda>(k, v). m_list e (''change:'' @ k) w = []) attrs
        \<and> \<not> truthy (case m_validate (mheap w e) of None \<Rightarrow> Undefined | Some validate \<Rightarrow> validate attrs)
        \<and> distinct (map fst attrs) \<and> (''id'', v) \<in> set attrs \<and> truthy v
        \<and> lookup (m_attributes (mheap w e)) ''id'' = m_id (mheap w e)
        \<and> lookup (m_previousAttributes (mheap w e)) ''id'' = m_id (mheap w e)
        \<and> \<not> loose_eq tn (m_id (mheap w e)) v
        \<and> ToString (m_id (mheap w e)) \<noteq> ToString v
        \<and> list_all is_observer (c_list c ''refresh'' w)
        \<and> list_all is_observer (c_list c ''change'' w)
        \<and> list_all is_observer (c_list c ''all'' w) \<longrightarrow>
        get w'' c (ByValue v) = Some e
        \<and> fst (set_attrs tn e (Attrs attrs) False w') = Inr True
        \<and> journal w'' = journal w' @ c_published c ''change'' [ModelArg e] (mheap (assigned e attrs w)) w)"
proof -
  note f = refresh_frame[OF assms(5), of tn c silent, folded assms(6)]
  have l: "\<And>ev. m_list e ev w' = m_list e ev w" by (simp add: m_list_def m_calls_def f(1))
  have 1: "e \<notin> set (c_models (cheap w' c))" by (rule f(2))
  have 2: "m_collection (mheap w' e) = Some c" using assms(1) by (simp add: f(1))
  have 3: "m_list e ''all'' w' = [BoundOnModelEvent c]" using assms(2) by (simp add: l)
  have 4: "trigger_m tn e ''change'' [ModelArg e] w' =
        trigger_c c ''change'' [ModelArg e]
          (if hasChanged tn (mheap w' e) (Some ''id'') then rekey c e w' else w')"
    using assms(2,3) by (subst trigger_m_bound[where c=c]) (simp_all add: l onModelEvent_def)
  have 5: "\<And>x. trigger_m tn e ''error'' [ModelArg e, ValArg x] w' =
        trigger_c c ''error'' [ModelArg e, ValArg x] w'"
    using assms(2,4) by (subst trigger_m_bound[where c=c]) (simp_all add: l onModelEvent_def)
  have 6: "list_all (\<lambda>(k, v). m_list e (''change:'' @ k) w = []) attrs
        \<and> \<not> truthy (case m_validate (mheap w e) of None \<Rightarrow> Undefined | Some validate \<Rightarrow> validate attrs)
        \<and> differs (m_attributes (mheap w e)) attrs \<longrightarrow>
        set_attrs tn e (Attrs attrs) False w' =
          (case trigger_c c ''change'' [ModelArg e]
                  (if hasChanged tn (mheap (assigned e attrs w') e) (Some ''id'')
                   then rekey c e (assigned e attrs w') else assigned e attrs w') of
             (Inl x, w1) \<Rightarrow> (Inl x, w1)
           | (Inr u, w1) \<Rightarrow>
               (Inr True, upd_m e (\<lambda>M. M\<lparr>m_previousAttributes := m_attributes M, m_changed := False\<rparr>) w1))"
  proof
    assume a: "list_all (\<lambda>(k, v). m_list e (''change:'' @ k) w = []) attrs
        \<and> \<not> truthy (case m_validate (mheap w e) of None \<Rightarrow> Undefined | Some validate \<Rightarrow> validate attrs)
        \<and> differs (m_attributes (mheap w e)) attrs"
    have ch: "m_changed (mheap (assigned e attrs w') e)"
      using a by (simp add: assigned_def upd_m_def f(1))
    show "set_attrs tn e (Attrs attrs) False w' =
          (case trigger_c c ''change'' [ModelArg e]
                  (if hasChanged tn (mheap (assigned e attrs w') e) (Some ''id'')
                   then rekey c e (assigned e attrs w') else assigned e attrs w') of
             (Inl x, w1) \<Rightarrow> (Inl x, w1)
           | (Inr u, w1) \<Rightarrow>
               (Inr True, upd_m e (\<lambda>M. M\<lparr>m_previousAttributes := m_attributes M, m_changed := False\<rparr>) w1))"
      using a assms(2,3) by (intro set_attrs_bound ch) (simp_all add: l f(1))
  qed
  have 7: "\<forall>validate. m_validate (mheap w e) = Some validate \<and> truthy (validate attrs) \<longrightarrow>
        set_attrs tn e (Attrs attrs) quiet w' =
          (case trigger_c c ''error'' [ModelArg e, ValArg (validate attrs)] w' of
             (Inl x, w1) \<Rightarrow> (Inl x, w1)
           | (Inr u, w1) \<Rightarrow> (Inr False, w1))"
    using set_attrs_rejected[where p="Attrs attrs" and w=w' and m=e and tn=tn and silent=quiet]
    by (simp add: f(1) attrs_of_def 5)
  have 8: "list_all (\<lambda>(k, v). m_list e (''change:'' @ k) w = []) attrs
        \<and> \<not> truthy (case m_validate (mheap w e) of None \<Rightarrow> Undefined | Some validate \<Rightarrow> validate attrs)
        \<and> distinct (map fst attrs) \<and> (''id'', v) \<in> set attrs \<and> truthy v
        \<and> lookup (m_attributes (mheap w e)) ''id'' = m_id (mheap w e)
        \<and> lookup (m_previousAttributes (mheap w e)) ''id'' = m_id (mheap w e)
        \<and> \<not> loose_eq tn (m_id (mheap w e)) v
        \<and> ToString (m_id (mheap w e)) \<noteq> ToString v
        \<and> list_all is_observer (c_list c ''refresh'' w)
        \<and> list_all is_observer (c_list c ''change'' w)
        \<and> list_all is_observer (c_list c ''all'' w) \<longrightarrow>
        get w'' c (ByValue v) = Some e
        \<and> fst (set_attrs tn e (Attrs attrs) False w') = Inr True
        \<and> journal w'' = journal w' @ c_published c ''change'' [ModelArg e] (mheap (assigned e attrs w)) w"
  proof
    assume a: "list_all (\<lambda>(k, v). m_list e (''change:'' @ k) w = []) attrs
        \<and> \<not> truthy (case m_validate (mheap w e) of None \<Rightarrow> Undefined | Some validate \<Rightarrow> validate attrs)
        \<and> distinct (map fst attrs) \<and> (''id'', v) \<in> set attrs \<and> truthy v
        \<and> lookup (m_attributes (mheap w e)) ''id'' = m_id (mheap w e)
        \<and> lookup (m_previousAttributes (mheap w e)) ''id'' = m_id (mheap w e)
        \<and> \<not> loose_eq tn (m_id (mheap w e)) v
        \<and> ToString (m_id (mheap w e)) \<noteq> ToString v
        \<and> list_all is_observer (c_list c ''refresh'' w)
        \<and> list_all is_observer (c_list c ''change'' w)
        \<and> list_all is_observer (c_list c ''all'' w)"
    have cb: "c_callbacks (cheap w' c) = c_callbacks (cheap w c)"
      unfolding assms(6) using a by (intro refresh_callbacks) simp_all
    have cl: "\<And>ev. c_list c ev w' = c_list c ev w" by (simp add: c_list_def c_calls_def cb)
    have h: "m_list e ''all'' w' = [BoundOnModelEvent c]" "m_list e ''change'' w' = []"
      "list_all (\<lambda>(k, v). m_list e (''change:'' @ k) w' = []) attrs"
      "\<not> truthy (case m_validate (mheap w' e) of None \<Rightarrow> Undefined | Some validate \<Rightarrow> validate attrs)"
      "distinct (map fst attrs)" "(''id'', v) \<in> set attrs" "truthy v"
      "lookup (m_attributes (mheap w' e)) ''id'' = m_id (mheap w' e)"
      "lookup (m_previousAttributes (mheap w' e)) ''id'' = m_id (mheap w' e)"
      "\<not> loose_eq tn (m_id (mheap w' e)) v"
      "ToString (m_id (mheap w' e)) \<noteq> ToString v"
      using a assms(2,3) by (simp_all add: l f(1))
    note r = set_attrs_rekeys[OF h assms(7)]
    have o: "list_all is_observer (c_list c ''change'' w') \<and> list_all is_observer (c_list c ''all'' w')"
      using a by (simp add: cl)
    have j: "journal w'' = journal w' @ c_published c ''change'' [ModelArg e] (mheap (assigned e attrs w')) w'"
      and g: "get w'' c (ByValue v) = Some e"
      and s: "fst (set_attrs tn e (Attrs attrs) False w') = Inr True"
      using r o by blast+
    have v: "\<And>args. views (mheap (assigned e attrs w')) [ModelArg e] = views (mheap (assigned e attrs w)) [ModelArg e]"
      "views (mheap (assigned e attrs w')) [EvName ''change'', ModelArg e]
        = views (mheap (assigned e attrs w)) [EvName ''change'', ModelArg e]"
      by (simp_all add: assigned_def upd_m_def f(1))
    have "c_published c ''change'' [ModelArg e] (mheap (assigned e attrs w')) w'
        = c_published c ''change'' [ModelArg e] (mheap (assigned e attrs w)) w"
      unfolding c_published_def cl
      using sightings_views[OF v(1)] sightings_views[OF v(2)] by simp
    then show "get w'' c (ByValue v) = Some e
        \<and> fst (set_attrs tn e (Attrs attrs) False w') = Inr True
        \<and> journal w'' = journal w' @ c_published c ''change'' [ModelArg e] (mheap (assigned e attrs w)) w"
      using j g s by simp
  qed
  show ?thesis using 1 2 3 4 5[of err] 6 7 8 by blast
qed

text \<open>
  The observed collection 0 whose member, the model 0 without an id, is replaced by a
  refresh with one plain hash: model 0 is no member, keeps its back-reference, and after
  \<open>set({id: '7'})\<close> on it \<open>get('7')\<close> answers it and the collection's observer has seen
  \<open>change\<close> with it.
\<close>

theorem refresh_leaves_former_members_witness:
  "0 \<notin> set (c_models (cheap refreshed 0))
   \<and> m_collection (mheap refreshed 0) = Some 0
   \<and> get (snd (set_attrs ToNumber_decimal 0 (Attrs [(''id'', Str ''7'')]) False refreshed)) 0
        (ByValue (Str ''7'')) = Some 0
   \<and> drop (length (journal refreshed))
        (journal (snd (set_attrs ToNumber_decimal 0 (Attrs [(''id'', Str ''7'')]) False refreshed)))
       = [Saw 9 (OfCollection 0) [EvName ''change'', ModelArg 0]
            [([(''name'', Str ''a''), (''id'', Str ''7'')], [(''name'', Str ''a'')], True)]]"
proof -
  let ?w = member_without_id
  let ?a = "[(''id'', Str ''7'')]"
  have h: "m_collection (mheap ?w 0) = Some 0" "m_list 0 ''all'' ?w = [BoundOnModelEvent 0]"
    "m_list 0 ''change'' ?w = []" "m_list 0 ''error'' ?w = []"
    "case Raws [[(''name'', Str ''b'')]] of Models ms \<Rightarrow> 0 \<notin> set ms | Raws hs \<Rightarrow> 0 < idCounter ?w"
    by code_simp+
  have g: "list_all (\<lambda>(k, v). m_list 0 (''change:'' @ k) ?w = []) ?a
        \<and> \<not> truthy (case m_validate (mheap ?w 0) of None \<Rightarrow> Undefined | Some validate \<Rightarrow> validate ?a)
        \<and> distinct (map fst ?a) \<and> (''id'', Str ''7'') \<in> set ?a \<and> truthy (Str ''7'')
        \<and> lookup (m_attributes (mheap ?w 0)) ''id'' = m_id (mheap ?w 0)
        \<and> lookup (m_previousAttributes (mheap ?w 0)) ''id'' = m_id (mheap ?w 0)
        \<and> \<not> loose_eq ToNumber_decimal (m_id (mheap ?w 0)) (Str ''7'')
        \<and> ToString (m_id (mheap ?w 0)) \<noteq> ToString (Str ''7'')
        \<and> list_all is_observer (c_list 0 ''refresh'' ?w)
        \<and> list_all is_observer (c_list 0 ''change'' ?w)
        \<and> list_all is_observer (c_list 0 ''all'' ?w)"
    by code_simp
  have v: "c_published 0 ''change'' [ModelArg 0] (mheap (assigned 0 ?a ?w)) ?w
      = [Saw 9 (OfCollection 0) [EvName ''change'', ModelArg 0]
            [([(''name'', Str ''a''), (''id'', Str ''7'')], [(''name'', Str ''a'')], True)]]"
    by code_simp
  note t = refresh_leaves_former_members_attached[OF h refreshed_def refl,
      where attrs="?a" and v="Str ''7''"]
  have 1: "0 \<notin> set (c_models (cheap refreshed 0))" "m_collection (mheap refreshed 0) = Some 0"
    using t by blast+
  have 2: "get (snd (set_attrs ToNumber_decimal 0 (Attrs ?a) False refreshed)) 0 (ByValue (Str ''7'')) = Some 0"
    "journal (snd (set_attrs ToNumber_decimal 0 (Attrs ?a) False refreshed))
      = journal refreshed @ c_published 0 ''change'' [ModelArg 0] (mheap (assigned 0 ?a ?w)) ?w"
    using t g by blast+
  show ?thesis using 1 2(1) unfolding 2(2) v by simp
qed

end
